theory Spec2Isabelle
  imports Complex_Main
begin

section \<open>Python values used by \<open>video_encoder.py\<close>\<close>

text \<open>
  Text is a list of bytes (\<open>string\<close>); the encoder's progress output is ASCII. The two
  block characters of the progress bar are written as their UTF-8 bytes. Python's
  \<open>int\<close> is \<open>int\<close>; the limit that recent versions of Python put on the number of
  digits \<open>int()\<close> reads is outside the model. Python's \<open>float\<close> is a binary64
  number: it is modelled by the real number it stands for, and every operation that
  gives a float rounds its exact result to the nearest binary64 number (\<open>fl\<close> below).
  The range of the exponent is not modelled, so there is no overflow and no underflow;
  \<open>inf\<close> and \<open>nan\<close> are outside the model.
\<close>

datatype py_error = ValueError | ZeroDivisionError | CalledProcessError

definition LF :: string where
  "LF = [CHR 0x0A]"

definition CR :: string where
  "CR = [CHR 0x0D]"

text \<open>\<open>str.isspace\<close> on one ASCII character: TAB, LF, VT, FF, CR, FS, GS, RS, US and
  the space. The same class is \<open>\s\<close> of \<open>re\<close> on a \<open>str\<close> pattern.\<close>

definition py_isspace :: "char \<Rightarrow> bool" where
  "py_isspace c = (let n = (of_char c :: nat) in (9 \<le> n \<and> n \<le> 13) \<or> (28 \<le> n \<and> n \<le> 32))"

text \<open>\<open>\d\<close> on ASCII text.\<close>

definition is_digit :: "char \<Rightarrow> bool" where
  "is_digit c = (let n = (of_char c :: int) in 48 \<le> n \<and> n \<le> 57)"

definition digit_val :: "char \<Rightarrow> int" where
  "digit_val c = of_char c - 48"

definition digit_chr :: "int \<Rightarrow> char" where
  "digit_chr d = char_of (48 + d)"

text \<open>\<open>str.strip()\<close>: whitespace removed at both ends.\<close>

definition lstrip :: "string \<Rightarrow> string" where
  "lstrip s = dropWhile py_isspace s"

definition rstrip :: "string \<Rightarrow> string" where
  "rstrip s = rev (dropWhile py_isspace (rev s))"

definition strip :: "string \<Rightarrow> string" where
  "strip s = rstrip (lstrip s)"

text \<open>\<open>str.startswith\<close>.\<close>

definition startswith :: "string \<Rightarrow> string \<Rightarrow> bool" where
  "startswith s p = (take (length p) s = p)"

text \<open>\<open>s * n\<close> on a string: the empty string when \<open>n\<close> is negative.\<close>

definition py_repeat :: "string \<Rightarrow> int \<Rightarrow> string" where
  "py_repeat s n = concat (replicate (nat n) s)"

text \<open>\<open>int(x)\<close> on a float: truncation toward zero.\<close>

definition py_trunc :: "real \<Rightarrow> int" where
  "py_trunc x = (if 0 \<le> x then \<lfloor>x\<rfloor> else \<lceil>x\<rceil>)"

subsection \<open>Number formatting\<close>

text \<open>The decimal digits of a non-negative integer, and the value of a digit string.\<close>

function show_nat :: "int \<Rightarrow> string" where
  "show_nat n = (if n < 10 then [digit_chr n] else show_nat (n div 10) @ [digit_chr (n mod 10)])"
  by pat_completeness auto
termination
  by (relation "measure nat") auto

declare show_nat.simps [simp del]

definition digits_val :: "string \<Rightarrow> int" where
  "digits_val ds = foldl (\<lambda>acc c. 10 * acc + digit_val c) 0 ds"

definition show_int :: "int \<Rightarrow> string" where
  "show_int i = (if i < 0 then CHR ''-'' # show_nat (- i) else show_nat i)"

text \<open>Right alignment in a field: \<open>{:6d}\<close>, \<open>{:5.1f}\<close>.\<close>

definition pad_left :: "char \<Rightarrow> nat \<Rightarrow> string \<Rightarrow> string" where
  "pad_left c w s = replicate (w - length s) c @ s"

definition fmt_d :: "nat \<Rightarrow> int \<Rightarrow> string" where
  "fmt_d w i = pad_left CHR '' '' w (show_int i)"

text \<open>Zero padding, \<open>{:02d}\<close> and \<open>{:02}\<close> on an int: the sign comes first and the
  zeros fill the field after it.\<close>

definition fmt_0d :: "nat \<Rightarrow> int \<Rightarrow> string" where
  "fmt_0d w i = (if i < 0 then CHR ''-'' # pad_left CHR ''0'' (w - 1) (show_nat (- i))
                 else pad_left CHR ''0'' w (show_nat i))"

text \<open>Rounding to the nearest integer, ties to even.\<close>

definition round_half_even :: "real \<Rightarrow> int" where
  "round_half_even x =
     (let f = \<lfloor>x\<rfloor>; d = x - of_int f
      in if d < 1 / 2 then f else if 1 / 2 < d then f + 1 else if even f then f else f + 1)"

subsection \<open>Rounding to binary64\<close>

text \<open>The binade of a positive number \<open>x\<close> is the exponent \<open>k\<close> with
  \<open>2 ^ k \<le> x < 2 ^ (k + 1)\<close>; it is found by halving or doubling.\<close>

function bexp_up :: "real \<Rightarrow> int" where
  "bexp_up x = (if x < 2 then 0 else 1 + bexp_up (x / 2))"
  by pat_completeness auto
termination
proof (relation "measure (\<lambda>x. nat \<lfloor>x\<rfloor>)")
  show "wf (measure (\<lambda>x::real. nat \<lfloor>x\<rfloor>))" by simp
next
  fix x :: real
  assume a: "\<not> x < 2"
  have "x / 2 < of_int \<lfloor>x\<rfloor>" using a by linarith
  then have "\<lfloor>x / 2\<rfloor> < \<lfloor>x\<rfloor>" by (simp add: floor_less_iff)
  moreover have "0 < \<lfloor>x\<rfloor>" using a by linarith
  ultimately show "(x / 2, x) \<in> measure (\<lambda>x. nat \<lfloor>x\<rfloor>)" by simp
qed

function bexp_down :: "real \<Rightarrow> int" where
  "bexp_down x = (if x \<le> 0 \<or> 1 \<le> x then 0 else bexp_down (2 * x) - 1)"
  by pat_completeness auto
termination
proof (relation "measure (\<lambda>x. nat \<lfloor>1 / x\<rfloor>)")
  show "wf (measure (\<lambda>x::real. nat \<lfloor>1 / x\<rfloor>))" by simp
next
  fix x :: real
  assume a: "\<not> (x \<le> 0 \<or> 1 \<le> x)"
  then have x: "0 < x" "x < 1" by simp_all
  define y where "y = 1 / x"
  have y: "1 < y" using x by (simp add: y_def)
  have h: "1 / (2 * x) = y / 2" by (simp add: y_def)
  have f1: "1 \<le> \<lfloor>y\<rfloor>" using y by (simp add: le_floor_iff)
  then have f2: "(1::real) \<le> of_int \<lfloor>y\<rfloor>" by linarith
  have f3: "y < of_int \<lfloor>y\<rfloor> + 1" by linarith
  have "y / 2 < of_int \<lfloor>y\<rfloor>" using f2 f3 by linarith
  then have "\<lfloor>y / 2\<rfloor> < \<lfloor>y\<rfloor>" by (simp add: floor_less_iff)
  moreover have "0 < \<lfloor>y\<rfloor>" using f1 by linarith
  ultimately have "nat \<lfloor>1 / (2 * x)\<rfloor> < nat \<lfloor>1 / x\<rfloor>"
    unfolding h unfolding y_def by simp
  then show "(2 * x, x) \<in> measure (\<lambda>x. nat \<lfloor>1 / x\<rfloor>)" by simp
qed

declare bexp_up.simps [simp del] bexp_down.simps [simp del]

definition binade :: "real \<Rightarrow> int" where
  "binade x = (if 1 \<le> x then bexp_up x else bexp_down x)"

text \<open>The nearest number with a significand of 53 bits, ties to the even significand:
  in the binade \<open>k\<close> these numbers are the multiples of \<open>2 ^ (k - 52)\<close>. This is
  what each arithmetic operation on floats, the division of two ints and \<open>float()\<close>
  return for the exact result.\<close>

definition fl :: "real \<Rightarrow> real" where
  "fl x =
     (if x = 0 then 0
      else (let q = 2 powi (binade \<bar>x\<bar> - 52);
                m = of_int (round_half_even (\<bar>x\<bar> / q)) * q
            in if x < 0 then - m else m))"

subsection \<open>Formatting a float\<close>

text \<open>\<open>{:w.1f}\<close>: one decimal place, right aligned in a field of \<open>w\<close>. The digit
  printed is the rounding of the exact value of the float.\<close>

definition fmt_f1 :: "nat \<Rightarrow> real \<Rightarrow> string" where
  "fmt_f1 w x =
     (let t = round_half_even (\<bar>x\<bar> * 10);
          body = show_nat (t div 10) @ ''.'' @ show_nat (t mod 10)
      in pad_left CHR '' '' w (if x < 0 then CHR ''-'' # body else body))"

section \<open>The progress bar\<close>

definition full_block :: string where
  "full_block = [CHR 0xE2, CHR 0x96, CHR 0x88]"

definition light_shade :: string where
  "light_shade = [CHR 0xE2, CHR 0x96, CHR 0x91]"

definition filled_width :: "real \<Rightarrow> int \<Rightarrow> int" where
  "filled_width progress width = py_trunc (of_int width * progress / 100)"

definition create_progress_bar :: "real \<Rightarrow> int \<Rightarrow> string" where
  "create_progress_bar progress width =
     py_repeat full_block (filled_width progress width)
     @ py_repeat light_shade (width - filled_width progress width)"

section \<open>Time remaining\<close>

text \<open>Lines 266 to 275 of \<open>encode_video\<close>. The product of the frame rate and the
  speed is rounded, the number of remaining frames is turned into a float and the
  quotient is rounded; the division of the two ints of line 275 is rounded, and so is
  the product by 100. \<open>//\<close> and \<open>%\<close> of Python round toward minus infinity, as
  \<open>div\<close> and \<open>mod\<close> on \<open>int\<close> do.\<close>

definition remaining_frames :: "int \<Rightarrow> int \<Rightarrow> int" where
  "remaining_frames total_frames current_frame = total_frames - current_frame"

definition seconds_remaining :: "int \<Rightarrow> int \<Rightarrow> real \<Rightarrow> real \<Rightarrow> int" where
  "seconds_remaining total_frames current_frame video_fps encoding_speed =
     py_trunc (fl (fl (of_int (remaining_frames total_frames current_frame))
                   / fl (video_fps * encoding_speed)))"

definition time_remaining :: "int \<Rightarrow> string" where
  "time_remaining secs =
     fmt_0d 2 (secs div 3600) @ '':'' @ fmt_0d 2 ((secs mod 3600) div 60) @ '':''
     @ fmt_0d 2 (secs mod 60)"

definition progress_percent :: "int \<Rightarrow> int \<Rightarrow> real" where
  "progress_percent current_frame total_frames =
     fl (fl (of_int current_frame / of_int total_frames) * 100)"

section \<open>Parsing numbers: \<open>int()\<close> and \<open>float()\<close>\<close>

text \<open>A digit part of a Python numeric literal: digits, with single underscores allowed
  between two digits. \<open>digitpart\<close> returns the digits read and the rest of the text; no
  digits read means that the text does not start with a digit.\<close>

fun digit_tail :: "string \<Rightarrow> string \<times> string" where
  "digit_tail [] = ([], [])"
| "digit_tail [c] = (if is_digit c then ([c], []) else ([], [c]))"
| "digit_tail (c # d # cs) =
     (if is_digit c then (case digit_tail (d # cs) of (ds, r) \<Rightarrow> (c # ds, r))
      else if c = CHR ''_'' \<and> is_digit d then (case digit_tail cs of (ds, r) \<Rightarrow> (d # ds, r))
      else ([], c # d # cs))"

definition digitpart :: "string \<Rightarrow> string \<times> string" where
  "digitpart s =
     (case s of [] \<Rightarrow> ([], [])
      | c # cs \<Rightarrow> if is_digit c then (case digit_tail cs of (ds, r) \<Rightarrow> (c # ds, r)) else ([], s))"

text \<open>An optional sign.\<close>

definition split_sign :: "string \<Rightarrow> bool \<times> string" where
  "split_sign s =
     (case s of [] \<Rightarrow> (False, [])
      | c # cs \<Rightarrow> if c = CHR ''-'' then (True, cs) else if c = CHR ''+'' then (False, cs)
                 else (False, s))"

text \<open>\<open>int(s)\<close> in base 10; \<open>None\<close> is the \<open>ValueError\<close>.\<close>

definition py_int :: "string \<Rightarrow> int option" where
  "py_int s =
     (case split_sign (strip s) of (neg, body) \<Rightarrow>
        (case digitpart body of (ds, r) \<Rightarrow>
           if ds \<noteq> [] \<and> r = [] then Some (if neg then - digits_val ds else digits_val ds)
           else None))"

text \<open>The exponent of a float literal: nothing, or \<open>e\<close> or \<open>E\<close>, an optional sign and
  a digit part, up to the end of the text.\<close>

definition exponent :: "string \<Rightarrow> int option" where
  "exponent s =
     (case s of [] \<Rightarrow> Some 0
      | c # cs \<Rightarrow>
          if c = CHR ''e'' \<or> c = CHR ''E'' then
            (case split_sign cs of (neg, body) \<Rightarrow>
               (case digitpart body of (ds, r) \<Rightarrow>
                  if ds \<noteq> [] \<and> r = [] then Some (if neg then - digits_val ds else digits_val ds)
                  else None))
          else None)"

definition scale10 :: "real \<Rightarrow> int \<Rightarrow> real" where
  "scale10 x e = (if 0 \<le> e then x * 10 ^ nat e else x / 10 ^ nat (- e))"

text \<open>\<open>float(s)\<close> on a decimal literal: the float nearest to the number written;
  \<open>None\<close> is the \<open>ValueError\<close>. The words
  \<open>inf\<close>, \<open>infinity\<close> and \<open>nan\<close>, which \<open>float\<close> turns into values that are no real
  numbers, are outside the model and are read as \<open>None\<close> here.\<close>

definition py_float :: "string \<Rightarrow> real option" where
  "py_float s =
     (case split_sign (strip s) of (neg, body) \<Rightarrow>
        (case digitpart body of (ip, r1) \<Rightarrow>
           (case (case r1 of [] \<Rightarrow> ([], r1)
                  | c # cs \<Rightarrow> if c = CHR ''.'' then digitpart cs else ([], r1)) of (fp, r2) \<Rightarrow>
              if ip = [] \<and> fp = [] then None
              else (case exponent r2 of None \<Rightarrow> None
                    | Some e \<Rightarrow>
                        (let m = scale10 (of_int (digits_val (ip @ fp)) / 10 ^ length fp) e
                         in Some (fl (if neg then - m else m)))))))"

section \<open>The patterns of the progress line\<close>

text \<open>
  \<open>re.search\<close> tries the pattern at every position from the left. At one position each
  of the six patterns has at most one way to match: a greedy run of \<open>\s\<close>, of \<open>\d\<close> or
  of \<open>[\d.]\<close> is followed by a character outside the run, so giving characters back
  never helps.
\<close>

fun re_search :: "(string \<Rightarrow> 'a option) \<Rightarrow> string \<Rightarrow> 'a option" where
  "re_search m [] = m []"
| "re_search m (c # cs) = (case m (c # cs) of Some g \<Rightarrow> Some g | None \<Rightarrow> re_search m cs)"

definition lit :: "string \<Rightarrow> string \<Rightarrow> string option" where
  "lit p s = (if startswith s p then Some (drop (length p) s) else None)"

definition digit_or_dot :: "char \<Rightarrow> bool" where
  "digit_or_dot c = (is_digit c \<or> c = CHR ''.'')"

text \<open>\<open>key\s*(\d+)suffix\<close> at the start of the text; the group.\<close>

definition match_digits :: "string \<Rightarrow> string \<Rightarrow> string \<Rightarrow> string option" where
  "match_digits key suffix s =
     (case lit key s of None \<Rightarrow> None
      | Some r \<Rightarrow>
          (let r' = dropWhile py_isspace r; g = takeWhile is_digit r'
           in if g \<noteq> [] \<and> startswith (dropWhile is_digit r') suffix then Some g else None))"

text \<open>\<open>key\s*([\d.]+)suffix\<close> at the start of the text; the group.\<close>

definition match_decimal :: "string \<Rightarrow> string \<Rightarrow> string \<Rightarrow> string option" where
  "match_decimal key suffix s =
     (case lit key s of None \<Rightarrow> None
      | Some r \<Rightarrow>
          (let r' = dropWhile py_isspace r; g = takeWhile digit_or_dot r'
           in if g \<noteq> [] \<and> startswith (dropWhile digit_or_dot r') suffix then Some g else None))"

text \<open>\<open>time=(\d+):(\d+):(\d+\.\d+)\<close> at the start of the text; the three groups.\<close>

definition match_time :: "string \<Rightarrow> (string \<times> string \<times> string) option" where
  "match_time s =
     (case lit ''time='' s of None \<Rightarrow> None
      | Some r \<Rightarrow>
          (let h = takeWhile is_digit r
           in case (if h = [] then None else lit '':'' (dropWhile is_digit r)) of None \<Rightarrow> None
              | Some r1 \<Rightarrow>
                  (let m = takeWhile is_digit r1
                   in case (if m = [] then None else lit '':'' (dropWhile is_digit r1)) of None \<Rightarrow> None
                      | Some r2 \<Rightarrow>
                          (let s1 = takeWhile is_digit r2
                           in case (if s1 = [] then None else lit ''.'' (dropWhile is_digit r2)) of
                                None \<Rightarrow> None
                              | Some r3 \<Rightarrow>
                                  (let s2 = takeWhile is_digit r3
                                   in if s2 = [] then None else Some (h, m, s1 @ ''.'' @ s2))))))"

definition frame_match :: "string \<Rightarrow> string option" where
  "frame_match line = re_search (match_digits ''frame='' []) line"

definition speed_match :: "string \<Rightarrow> string option" where
  "speed_match line = re_search (match_decimal ''speed='' ''x'') line"

definition fps_match :: "string \<Rightarrow> string option" where
  "fps_match line = re_search (match_digits ''fps='' []) line"

definition size_match :: "string \<Rightarrow> string option" where
  "size_match line = re_search (match_digits ''size='' ''KiB'') line"

definition time_match :: "string \<Rightarrow> (string \<times> string \<times> string) option" where
  "time_match line = re_search match_time line"

definition bitrate_match :: "string \<Rightarrow> string option" where
  "bitrate_match line = re_search (match_decimal ''bitrate='' ''kbits/s'') line"

text \<open>\<open>str.split(sep)\<close> with a separator of one character.\<close>

fun split_on :: "char \<Rightarrow> string \<Rightarrow> string list" where
  "split_on sep [] = [[]]"
| "split_on sep (c # cs) =
     (if c = sep then [] # split_on sep cs
      else (case split_on sep cs of [] \<Rightarrow> [[c]] | w # ws \<Rightarrow> (c # w) # ws))"

section \<open>\<open>get_video_info\<close>\<close>

record video_info =
  frame_count :: "int option"
  fps :: "real option"
  duration :: "real option"

text \<open>Lines 126 to 131: the frame rate, a fraction \<open>N/D\<close> or a decimal number. The
  unpacking \<open>num, den = map(int, ...)\<close> raises \<open>ValueError\<close> unless there are exactly
  two parts and both are integers.\<close>

definition parse_frame_rate :: "string \<Rightarrow> py_error + real" where
  "parse_frame_rate fps_fraction =
     (if CHR ''/'' \<in> set fps_fraction then
        (case map py_int (split_on CHR ''/'' fps_fraction) of
           [Some num, Some den] \<Rightarrow>
             if den = 0 then Inl ZeroDivisionError else Inr (fl (of_int num / of_int den))
         | _ \<Rightarrow> Inl ValueError)
      else (case py_float fps_fraction of None \<Rightarrow> Inl ValueError | Some f \<Rightarrow> Inr f))"

text \<open>Line 134: the duration, \<open>None\<close> when the output has one field only.\<close>

definition parse_duration :: "string list \<Rightarrow> py_error + real option" where
  "parse_duration probe_output =
     (case probe_output of
        _ # d # _ \<Rightarrow> (case py_float d of None \<Rightarrow> Inl ValueError | Some v \<Rightarrow> Inr (Some v))
      | _ \<Rightarrow> Inr None)"

text \<open>Line 137: \<open>int(duration * fps) if duration and fps else None\<close>. A float is true
  when it is not zero, \<open>None\<close> is false.\<close>

definition frame_count_of :: "real option \<Rightarrow> real \<Rightarrow> int option" where
  "frame_count_of dur rate =
     (case dur of None \<Rightarrow> None
      | Some d \<Rightarrow> if d \<noteq> 0 \<and> rate \<noteq> 0 then Some (py_trunc (fl (d * rate))) else None)"

text \<open>The body of the \<open>try\<close> (lines 106 to 143). The argument is what
  \<open>subprocess.check_output\<close> gives: the text written by the inspection tool, or the
  exception raised when the tool cannot be run or exits with a non-zero code.\<close>

definition get_video_info_try :: "py_error + string \<Rightarrow> py_error + video_info" where
  "get_video_info_try check_output =
     (case check_output of Inl e \<Rightarrow> Inl e
      | Inr out \<Rightarrow>
          (let probe_output = split_on CHR '','' (strip out)
           in case parse_frame_rate (case probe_output of [] \<Rightarrow> [] | x # _ \<Rightarrow> x) of
                Inl e \<Rightarrow> Inl e
              | Inr f \<Rightarrow>
                  (case parse_duration probe_output of Inl e \<Rightarrow> Inl e
                   | Inr d \<Rightarrow>
                       Inr \<lparr>frame_count = frame_count_of d f, fps = Some f, duration = d\<rparr>)))"

text \<open>Lines 144 to 150: every exception gives the dictionary of three \<open>None\<close>.\<close>

definition no_info :: video_info where
  "no_info = \<lparr>frame_count = None, fps = None, duration = None\<rparr>"

definition get_video_info :: "py_error + string \<Rightarrow> video_info" where
  "get_video_info check_output =
     (case get_video_info_try check_output of Inl e \<Rightarrow> no_info | Inr info \<Rightarrow> info)"

section \<open>One line of the encoder's output\<close>

text \<open>What the body of the loop (lines 223 to 306) prints for one line: the status line
  of line 300, the progress line as it came (line 303), any other line (line 306), or
  nothing for an empty line.\<close>

datatype shown = Status string | RawProgress string | OtherOutput string | Nothing

text \<open>The text written to the standard output: \<open>print(..., end='')\<close> after a carriage
  return for the first two, \<open>print(line)\<close> for the third.\<close>

fun stdout_text :: "shown \<Rightarrow> string" where
  "stdout_text (Status s) = s"
| "stdout_text (RawProgress l) = CR @ l"
| "stdout_text (OtherOutput l) = l @ LF"
| "stdout_text Nothing = []"

text \<open>\<open>format_duration\<close> (lines 332 to 339).\<close>

definition format_duration :: "real option \<Rightarrow> string" where
  "format_duration seconds =
     (case seconds of None \<Rightarrow> ''00:00:00''
      | Some s \<Rightarrow>
          if s = 0 then ''00:00:00''
          else fmt_0d 2 (py_trunc s div 3600) @ '':'' @ fmt_0d 2 ((py_trunc s mod 3600) div 60)
               @ '':'' @ fmt_0d 2 (py_trunc s mod 60))"

text \<open>Lines 240 to 262: the fields of the progress line with their defaults. \<open>int\<close> of
  a group of \<open>\d+\<close> is the value of its digits; \<open>float\<close> of a group of \<open>[\d.]+\<close>
  raises \<open>ValueError\<close> on a group such as \<open>1.2.3\<close>.\<close>

definition encoding_speed_of :: "string \<Rightarrow> py_error + real" where
  "encoding_speed_of line =
     (case speed_match line of None \<Rightarrow> Inr 0
      | Some g \<Rightarrow> (case py_float g of None \<Rightarrow> Inl ValueError | Some v \<Rightarrow> Inr v))"

definition current_fps_of :: "string \<Rightarrow> int" where
  "current_fps_of line = (case fps_match line of None \<Rightarrow> 0 | Some g \<Rightarrow> digits_val g)"

definition current_size_kb_of :: "string \<Rightarrow> int" where
  "current_size_kb_of line = (case size_match line of None \<Rightarrow> 0 | Some g \<Rightarrow> digits_val g)"

definition encoded_time_of :: "string \<Rightarrow> string" where
  "encoded_time_of line =
     (case time_match line of None \<Rightarrow> ''00:00:00''
      | Some (hours, minutes, seconds) \<Rightarrow>
          hours @ '':'' @ minutes @ '':''
          @ (case split_on CHR ''.'' seconds of [] \<Rightarrow> [] | seconds_int # _ \<Rightarrow> seconds_int))"

definition current_bitrate_of :: "string \<Rightarrow> py_error + real" where
  "current_bitrate_of line =
     (case bitrate_match line of None \<Rightarrow> Inr 0
      | Some g \<Rightarrow> (case py_float g of None \<Rightarrow> Inl ValueError | Some v \<Rightarrow> Inr v))"

text \<open>Lines 279 to 284. \<open>output_size\<close> is the size of the output file in bytes, \<open>None\<close>
  when the file does not exist.\<close>

definition estimated_final_size_mb :: "real \<Rightarrow> int option \<Rightarrow> real" where
  "estimated_final_size_mb percent output_size =
     (case output_size of None \<Rightarrow> 0
      | Some current_output_size \<Rightarrow>
          fl ((if percent > 0 then fl (fl (of_int current_output_size) / fl (percent / 100))
               else 0) / 1024 ^ 2))"

text \<open>Lines 288 to 298.\<close>

definition enhanced_progress ::
  "int \<Rightarrow> int \<Rightarrow> real \<Rightarrow> int \<Rightarrow> real \<Rightarrow> real \<Rightarrow> string \<Rightarrow> string \<Rightarrow> string \<Rightarrow> real \<Rightarrow> real \<Rightarrow> string"
where
  "enhanced_progress current_frame total_frames percent current_fps current_size_mb est_mb
      encoded_time video_duration_formatted time_left current_bitrate encoding_speed =
     CR @ ''Frame: '' @ fmt_d 6 current_frame @ ''/'' @ fmt_d 6 total_frames @ '' | ''
     @ create_progress_bar percent 20 @ '' '' @ fmt_f1 5 percent @ ''% | ''
     @ fmt_d 3 current_fps @ ''fps | ''
     @ fmt_f1 5 current_size_mb @ ''MB / est. '' @ fmt_f1 6 est_mb @ ''MB | ''
     @ ''Encoded: '' @ encoded_time @ '' / '' @ video_duration_formatted @ '' | ''
     @ ''est. '' @ time_left @ '' remaining | ''
     @ fmt_f1 6 current_bitrate @ ''kb/s | ''
     @ fmt_f1 3 encoding_speed @ ''x | ''
     @ ''Est. Size: '' @ fmt_f1 6 est_mb @ ''MB''"

text \<open>Lines 264 to 300, once the condition of line 264 holds.\<close>

definition render_status ::
  "video_info \<Rightarrow> int option \<Rightarrow> string \<Rightarrow> int \<Rightarrow> int \<Rightarrow> real \<Rightarrow> real \<Rightarrow> real \<Rightarrow> string"
where
  "render_status info output_size line current_frame total_frames video_fps encoding_speed
      current_bitrate =
     enhanced_progress current_frame total_frames
       (progress_percent current_frame total_frames)
       (current_fps_of line)
       (fl (of_int (current_size_kb_of line) / 1024))
       (estimated_final_size_mb (progress_percent current_frame total_frames) output_size)
       (encoded_time_of line)
       (format_duration (duration info))
       (time_remaining (seconds_remaining total_frames current_frame video_fps encoding_speed))
       current_bitrate encoding_speed"

text \<open>The body of the loop for the line read (lines 223 to 306). An error is the
  exception that leaves the loop; the handler of line 318 reports it as a failed
  encoding.\<close>

definition encode_video_line :: "video_info \<Rightarrow> int option \<Rightarrow> string \<Rightarrow> py_error + shown" where
  "encode_video_line info output_size raw =
     (let line = strip raw
      in if line = [] then Inr Nothing
         else if startswith line ''frame='' then
           (case encoding_speed_of line of Inl e \<Rightarrow> Inl e
            | Inr encoding_speed \<Rightarrow>
                (case current_bitrate_of line of Inl e \<Rightarrow> Inl e
                 | Inr current_bitrate \<Rightarrow>
                     (case (frame_match line, frame_count info, fps info) of
                        (Some g, Some total_frames, Some video_fps) \<Rightarrow>
                          if total_frames \<noteq> 0 \<and> video_fps \<noteq> 0 \<and> encoding_speed > 0 then
                            Inr (Status (render_status info output_size line (digits_val g)
                                   total_frames video_fps encoding_speed current_bitrate))
                          else Inr (RawProgress line)
                      | _ \<Rightarrow> Inr (RawProgress line))))
         else Inr (OtherOutput line))"

section \<open>The end of the encoding\<close>

text \<open>\<open>calculate_size_reduction\<close> (lines 322 to 330); the sizes are those of
  \<open>os.path.getsize\<close>, in bytes.\<close>

definition calculate_size_reduction :: "int \<Rightarrow> int \<Rightarrow> py_error + string" where
  "calculate_size_reduction original_size encoded_size =
     (if original_size = 0 then Inl ZeroDivisionError
      else Inr (''Original: '' @ fmt_f1 0 (fl (of_int original_size / 1024 ^ 2)) @ ''MB'' @ LF
                @ ''Encoded: '' @ fmt_f1 0 (fl (of_int encoded_size / 1024 ^ 2)) @ ''MB'' @ LF
                @ ''Reduction: ''
                @ fmt_f1 0
                    (fl (fl (of_int (original_size - encoded_size) / of_int original_size) * 100))
                @ ''%''))"

text \<open>Lines 309 to 320: what \<open>encode_video\<close> returns once the encoder has exited,
  \<open>None\<close> for the pair \<open>(None, None)\<close>. \<open>encoded_size\<close> is \<open>None\<close> when the output
  file does not exist. The exception of \<open>calculate_size_reduction\<close> is caught at
  line 318.\<close>

definition encode_video_exit :: "int \<Rightarrow> string \<Rightarrow> int \<Rightarrow> int option \<Rightarrow> (string \<times> string) option" where
  "encode_video_exit return_code output_file original_size encoded_size =
     (if return_code \<noteq> 0 then None
      else (case encoded_size of None \<Rightarrow> None
            | Some e \<Rightarrow>
                (case calculate_size_reduction original_size e of Inl err \<Rightarrow> None
                 | Inr report \<Rightarrow> Some (output_file, report))))"

text \<open>Lines 357 to 360 of \<open>encode_and_log\<close>: the text written to the log file, \<open>None\<close>
  when no log file is written.\<close>

definition log_written :: "(string \<times> string) option \<Rightarrow> string option" where
  "log_written r =
     (case r of None \<Rightarrow> None
      | Some (output_file, report) \<Rightarrow>
          if output_file \<noteq> [] \<and> report \<noteq> [] then Some report else None)"

section \<open>Digits and formatting\<close>

lemma digit_cases: "0 \<le> d \<Longrightarrow> d < 10 \<Longrightarrow> d \<in> {0,1,2,3,4,5,6,7,8,9::int}"
  by simp presburger

lemma digit_chr_props:
  assumes "0 \<le> d" "d < 10"
  shows "is_digit (digit_chr d)" and "digit_val (digit_chr d) = d"
  using digit_cases [OF assms]
  by (auto simp: is_digit_def digit_chr_def digit_val_def)

lemma digits_val_snoc: "digits_val (ds @ [c]) = 10 * digits_val ds + digit_val c"
  by (simp add: digits_val_def)

lemma show_nat_digits:
  "0 \<le> n \<Longrightarrow> list_all is_digit (show_nat n) \<and> digits_val (show_nat n) = n"
proof (induction n rule: show_nat.induct)
  case (1 n)
  show ?case
  proof (cases "n < 10")
    case True
    with 1(2) show ?thesis
      by (simp add: show_nat.simps [of n] digit_chr_props digits_val_def)
  next
    case False
    then have "0 \<le> n div 10" by simp
    with 1(1) False have ih: "list_all is_digit (show_nat (n div 10))"
      "digits_val (show_nat (n div 10)) = n div 10" by simp_all
    have m: "0 \<le> n mod 10" "n mod 10 < 10" by simp_all
    from False ih digit_chr_props [OF m] show ?thesis
      by (simp add: show_nat.simps [of n] digits_val_snoc)
  qed
qed

lemma show_nat_small: "n < 10 \<Longrightarrow> show_nat n = [digit_chr n]"
  by (simp add: show_nat.simps [of n])

lemma show_nat_two: "10 \<le> n \<Longrightarrow> n < 100 \<Longrightarrow> length (show_nat n) = 2"
  by (simp add: show_nat.simps [of n] show_nat_small)

lemma digits_val_zeros: "digits_val (replicate k (CHR ''0'') @ ds) = digits_val ds"
proof -
  have "foldl (\<lambda>acc c. 10 * acc + digit_val c) 0 (replicate k (CHR ''0'')) = 0"
    by (induction k) (simp_all add: digit_val_def)
  then show ?thesis by (simp add: digits_val_def)
qed

lemma fmt_0d_props:
  assumes "0 \<le> n"
  shows "list_all is_digit (fmt_0d 2 n)" "digits_val (fmt_0d 2 n) = n"
    "2 \<le> length (fmt_0d 2 n)" "n < 100 \<Longrightarrow> length (fmt_0d 2 n) = 2"
proof -
  have z: "is_digit (CHR ''0'')" by (simp add: is_digit_def)
  from assms show "list_all is_digit (fmt_0d 2 n)"
    using show_nat_digits [of n] z by (auto simp: fmt_0d_def pad_left_def list_all_iff)
  from assms show "digits_val (fmt_0d 2 n) = n"
    using show_nat_digits [of n] by (simp add: fmt_0d_def pad_left_def digits_val_zeros)
  from assms show "2 \<le> length (fmt_0d 2 n)"
    by (simp add: fmt_0d_def pad_left_def)
  show "n < 100 \<Longrightarrow> length (fmt_0d 2 n) = 2"
    using assms show_nat_two [of n] show_nat_small [of n]
    by (cases "n < 10") (simp_all add: fmt_0d_def pad_left_def)
qed

lemma hms_sum: "(secs::int) div 3600 * 3600 + secs mod 3600 div 60 * 60 + secs mod 60 = secs"
proof -
  have a: "secs mod 3600 mod 60 = secs mod 60"
    by (rule mod_mod_cancel) simp
  have b: "secs mod 3600 div 60 * 60 + secs mod 3600 mod 60 = secs mod 3600"
    by (rule div_mult_mod_eq)
  have c: "secs div 3600 * 3600 + secs mod 3600 = secs"
    by (rule div_mult_mod_eq)
  from a b c show ?thesis by linarith
qed

section \<open>Facts about the rounding to binary64\<close>

lemma two_powi_pos: "0 < (2::real) powi k"
  by simp

lemma two_powi_suc: "(2::real) powi (k + 1) = 2 powi k * 2"
  by (rule power_int_add_1) simp

lemma two_powi_pred: "(2::real) powi (k - 1) * 2 = 2 powi k"
  by (rule power_int_minus_mult) simp

lemma bexp_up_bounds:
  "1 \<le> x \<Longrightarrow> 2 powi (bexp_up x) \<le> x \<and> x < 2 powi (bexp_up x + 1)"
proof (induction x rule: bexp_up.induct)
  case (1 x)
  show ?case
  proof (cases "x < 2")
    case True
    with 1(2) show ?thesis by (simp add: bexp_up.simps [of x])
  next
    case False
    then have h: "1 \<le> x / 2" by simp
    from 1(1) [OF False h] have ih: "2 powi (bexp_up (x / 2)) \<le> x / 2"
      "x / 2 < 2 powi (bexp_up (x / 2) + 1)" by simp_all
    have e: "bexp_up x = bexp_up (x / 2) + 1" using False by (simp add: bexp_up.simps [of x])
    have a: "2 powi (bexp_up x) \<le> x"
      unfolding e two_powi_suc using ih(1) by linarith
    have b: "x < 2 powi (bexp_up x + 1)"
      unfolding e two_powi_suc [of "bexp_up (x / 2) + 1"] using ih(2) by linarith
    from a b show ?thesis by blast
  qed
qed

lemma bexp_down_bounds:
  "0 < x \<Longrightarrow> x < 1 \<Longrightarrow> 2 powi (bexp_down x) \<le> x \<and> x < 2 powi (bexp_down x + 1)"
proof (induction x rule: bexp_down.induct)
  case (1 x)
  have c: "\<not> (x \<le> 0 \<or> 1 \<le> x)" using 1(2,3) by simp
  have e: "bexp_down x = bexp_down (2 * x) - 1" using c by (simp add: bexp_down.simps [of x])
  show ?case
  proof (cases "2 * x < 1")
    case True
    have p: "0 < 2 * x" using 1(2) by simp
    from 1(1) [OF c p True] have ih: "2 powi (bexp_down (2 * x)) \<le> 2 * x"
      "2 * x < 2 powi (bexp_down (2 * x) + 1)" by simp_all
    have a: "2 powi (bexp_down x) \<le> x"
      unfolding e using ih(1) two_powi_pred [of "bexp_down (2 * x)"] by linarith
    have b: "x < 2 powi (bexp_down x + 1)"
      unfolding e using ih(2) two_powi_suc [of "bexp_down (2 * x)"] by simp
    from a b show ?thesis by blast
  next
    case False
    then have z: "bexp_down (2 * x) = 0" by (simp add: bexp_down.simps [of "2 * x"])
    have m: "(2::real) powi (- 1) = 1 / 2" by (simp add: power_int_minus_divide)
    from False 1(3) show ?thesis unfolding e z by (simp add: m)
  qed
qed

lemma binade_bounds:
  assumes "0 < x"
  shows "2 powi (binade x) \<le> x" and "x < 2 powi (binade x + 1)"
  using assms bexp_up_bounds [of x] bexp_down_bounds [of x]
  by (auto simp: binade_def)

lemma binade_mono:
  assumes "0 < x" and "x \<le> y"
  shows "binade x \<le> binade y"
proof (rule ccontr)
  assume "\<not> binade x \<le> binade y"
  then have "binade y + 1 \<le> binade x" by simp
  then have "(2::real) powi (binade y + 1) \<le> 2 powi (binade x)"
    by (rule power_int_increasing) simp
  moreover have "y < 2 powi (binade y + 1)" using assms by (intro binade_bounds) simp
  moreover have "2 powi (binade x) \<le> x" using assms by (intro binade_bounds)
  ultimately show False using assms(2) by linarith
qed

lemma round_half_even_of_int: "round_half_even (of_int n) = n"
  by (simp add: round_half_even_def)

lemma round_half_even_mono:
  assumes "x \<le> y"
  shows "round_half_even x \<le> round_half_even y"
proof (cases "\<lfloor>x\<rfloor> = \<lfloor>y\<rfloor>")
  case True
  with assms show ?thesis by (auto simp: round_half_even_def Let_def)
next
  case False
  with assms have "\<lfloor>x\<rfloor> < \<lfloor>y\<rfloor>" using floor_mono [OF assms] by simp
  then have a: "\<lfloor>x\<rfloor> + 1 \<le> \<lfloor>y\<rfloor>" by simp
  have b: "round_half_even x \<le> \<lfloor>x\<rfloor> + 1" by (simp add: round_half_even_def Let_def)
  have c: "\<lfloor>y\<rfloor> \<le> round_half_even y" by (simp add: round_half_even_def Let_def)
  from a b c show ?thesis by linarith
qed

lemma fl_zero: "fl 0 = 0"
  by (simp add: fl_def)

lemma fl_pos_eq:
  "0 < x \<Longrightarrow>
     fl x = of_int (round_half_even (x / 2 powi (binade x - 52))) * 2 powi (binade x - 52)"
  by (simp add: fl_def Let_def)

lemma fl_minus: "fl (- x) = - fl x"
  by (simp add: fl_def Let_def)

lemma two_powi_split: "(2::real) powi k = 2 powi (k - 52) * 2 ^ 52"
proof -
  have "(2::real) powi ((k - 52) + 52) = 2 powi (k - 52) * 2 powi 52"
    by (rule power_int_add) simp
  then show ?thesis by simp
qed

lemma fl_bounds:
  assumes "0 < x"
  shows "2 powi (binade x) \<le> fl x" and "fl x \<le> 2 powi (binade x + 1)"
proof -
  define q :: real where "q = 2 powi (binade x - 52)"
  have q: "0 < q" by (simp add: q_def)
  have lo: "q * 2 ^ 52 \<le> x"
    using binade_bounds(1) [OF assms] two_powi_split [of "binade x"] by (simp add: q_def)
  have "(2::real) powi (binade x + 1) = 2 powi (binade x) * 2" by (rule two_powi_suc)
  also have "\<dots> = q * 2 ^ 53" using two_powi_split [of "binade x"] by (simp add: q_def)
  finally have top: "(2::real) powi (binade x + 1) = q * 2 ^ 53" .
  have hi: "x \<le> q * 2 ^ 53" using binade_bounds(2) [OF assms] top by simp
  have "of_int (2 ^ 52) \<le> x / q" using lo q by (simp add: pos_le_divide_eq mult.commute)
  from round_half_even_mono [OF this] have a: "2 ^ 52 \<le> round_half_even (x / q)"
    by (simp only: round_half_even_of_int)
  have "x / q \<le> of_int (2 ^ 53)" using hi q by (simp add: pos_divide_le_eq mult.commute)
  from round_half_even_mono [OF this] have b: "round_half_even (x / q) \<le> 2 ^ 53"
    by (simp only: round_half_even_of_int)
  have f: "fl x = of_int (round_half_even (x / q)) * q"
    using fl_pos_eq [OF assms] by (simp add: q_def)
  have a': "(of_int (2 ^ 52) :: real) \<le> of_int (round_half_even (x / q))"
    using a by (simp only: of_int_le_iff)
  have "of_int (2 ^ 52) * q \<le> of_int (round_half_even (x / q)) * q"
    by (rule mult_right_mono [OF a' less_imp_le [OF q]])
  then show "2 powi (binade x) \<le> fl x"
    unfolding f using two_powi_split [of "binade x"] by (simp add: q_def mult.commute)
  have b': "(of_int (round_half_even (x / q)) :: real) \<le> of_int (2 ^ 53)"
    using b by (simp only: of_int_le_iff)
  have "of_int (round_half_even (x / q)) * q \<le> of_int (2 ^ 53) * q"
    by (rule mult_right_mono [OF b' less_imp_le [OF q]])
  then show "fl x \<le> 2 powi (binade x + 1)"
    unfolding f top by (simp add: mult.commute)
qed

lemma fl_pos: "0 < x \<Longrightarrow> 0 < fl x"
  using fl_bounds(1) [of x] two_powi_pos [of "binade x"] by linarith

lemma fl_mono_pos:
  assumes "0 < x" and "x \<le> y"
  shows "fl x \<le> fl y"
proof -
  have y: "0 < y" using assms by linarith
  show ?thesis
  proof (cases "binade x = binade y")
    case True
    define q :: real where "q = 2 powi (binade y - 52)"
    have q: "0 < q" by (simp add: q_def)
    have "x / q \<le> y / q" using assms(2) q by (simp add: divide_right_mono)
    from round_half_even_mono [OF this]
    have "of_int (round_half_even (x / q)) * q \<le> of_int (round_half_even (y / q)) * q"
      using q by (intro mult_right_mono) simp_all
    then show ?thesis
      using fl_pos_eq [OF assms(1)] fl_pos_eq [OF y] True by (simp add: q_def)
  next
    case False
    with binade_mono [OF assms] have "binade x + 1 \<le> binade y" by simp
    then have "(2::real) powi (binade x + 1) \<le> 2 powi (binade y)"
      by (rule power_int_increasing) simp
    with fl_bounds(2) [OF assms(1)] fl_bounds(1) [OF y] show ?thesis by linarith
  qed
qed

lemma fl_mono:
  assumes "x \<le> y"
  shows "fl x \<le> fl y"
proof -
  consider "0 < x" | "x \<le> 0" "0 < y" | "x < 0" "y = 0" | "x = 0" "y = 0" | "y < 0"
    using assms by linarith
  then show ?thesis
  proof cases
    case 1
    then show ?thesis using assms by (rule fl_mono_pos)
  next
    case 2
    have "fl x \<le> 0"
    proof (cases "x = 0")
      case True
      then show ?thesis by (simp add: fl_zero)
    next
      case False
      with 2 have "0 < - x" by simp
      from fl_pos [OF this] show ?thesis by (simp add: fl_minus)
    qed
    with fl_pos [OF 2(2)] show ?thesis by linarith
  next
    case 3
    then have "0 < - x" by simp
    from fl_pos [OF this] 3 show ?thesis by (simp add: fl_minus fl_zero)
  next
    case 4
    then show ?thesis by simp
  next
    case 5
    then have "0 < - y" "- y \<le> - x" using assms by simp_all
    from fl_mono_pos [OF this] show ?thesis by (simp add: fl_minus)
  qed
qed

lemma fl_nonneg: "0 \<le> x \<Longrightarrow> 0 \<le> fl x"
  using fl_mono [of 0 x] by (simp add: fl_zero)

lemma fl_nonpos: "x \<le> 0 \<Longrightarrow> fl x \<le> 0"
  using fl_mono [of x 0] by (simp add: fl_zero)

lemma fl_neg: "x < 0 \<Longrightarrow> fl x < 0"
  using fl_pos [of "- x"] by (simp add: fl_minus)

lemma fl_eq_0_iff: "fl x = 0 \<longleftrightarrow> x = 0"
  using fl_pos [of x] fl_neg [of x] fl_zero by (cases "x = 0"; cases "0 < x") auto

lemma fl_small_ints: "fl 1 = 1" "fl 100 = 100"
  by code_simp+

section \<open>Progress percentage\<close>

text \<open>
  Claim C6. For current frames between 0 and a positive \<open>total_frames\<close>, the percentage
  of line 275, \<open>(current_frame / total_frames) * 100\<close> with its two roundings, does
  not decrease when the current frame grows, stays between 0 and 100, and is exactly 100
  when the current frame equals \<open>total_frames\<close>.
\<close>

theorem progress_percent_monotone:
  assumes "0 < total_frames" "0 \<le> c1" "c1 \<le> c2" "c2 \<le> total_frames"
  shows "progress_percent c1 total_frames \<le> progress_percent c2 total_frames
         \<and> progress_percent total_frames total_frames = 100
         \<and> 0 \<le> progress_percent c1 total_frames
         \<and> progress_percent c2 total_frames \<le> 100"
proof -
  define x where "x = real_of_int c1 / real_of_int total_frames"
  define y where "y = real_of_int c2 / real_of_int total_frames"
  have t: "0 < real_of_int total_frames" using assms(1) by simp
  have a: "x \<le> y"
    unfolding x_def y_def using assms(3) t by (simp add: divide_right_mono)
  have b: "0 \<le> x" unfolding x_def using assms(2) t by simp
  have c: "y \<le> 1" unfolding y_def using assms(4) t by simp
  have p1: "progress_percent c1 total_frames = fl (fl x * 100)"
    by (simp add: progress_percent_def x_def)
  have p2: "progress_percent c2 total_frames = fl (fl y * 100)"
    by (simp add: progress_percent_def y_def)
  have "real_of_int total_frames / real_of_int total_frames = 1" using t by simp
  then have p3: "progress_percent total_frames total_frames = 100"
    by (simp add: progress_percent_def fl_small_ints)
  have xy: "fl x \<le> fl y" using a by (rule fl_mono)
  have x0: "0 \<le> fl x" using b by (rule fl_nonneg)
  have y1: "fl y \<le> 1" using fl_mono [OF c] by (simp add: fl_small_ints)
  have m: "fl (fl x * 100) \<le> fl (fl y * 100)" using xy by (intro fl_mono) simp
  have l: "0 \<le> fl (fl x * 100)" using x0 by (intro fl_nonneg) simp
  have "fl (fl y * 100) \<le> fl 100" using y1 by (intro fl_mono) simp
  then have u: "fl (fl y * 100) \<le> 100" by (simp add: fl_small_ints)
  from m l u show ?thesis unfolding p1 p2 p3 by simp
qed

theorem progress_percent_monotone_witness:
  "(0::int) < 250 \<and> (0::int) \<le> 100 \<and> (100::int) \<le> 200 \<and> (200::int) \<le> 250
   \<and> progress_percent 100 250 \<le> progress_percent 200 250
   \<and> progress_percent 250 250 = 100"
  using progress_percent_monotone [of 250 100 200] by simp

section \<open>The format of the time remaining\<close>

text \<open>
  Claim C7. For a number of seconds that is not negative, the text of line 273 is the
  hours, the minutes and the seconds of the decomposition, separated by colons: each
  field is made of digits only, minutes and seconds have exactly two of them, hours have
  at least two and are never cut, and the three fields read back give the number of
  seconds. 3661 gives 01:01:01, 0 gives 00:00:00 and 360000 gives 100:00:00.
\<close>

theorem time_remaining_hms:
  "(0 \<le> secs \<longrightarrow>
      time_remaining secs =
        fmt_0d 2 (secs div 3600) @ '':'' @ fmt_0d 2 (secs mod 3600 div 60) @ '':''
        @ fmt_0d 2 (secs mod 60)
      \<and> list_all is_digit (fmt_0d 2 (secs div 3600))
      \<and> list_all is_digit (fmt_0d 2 (secs mod 3600 div 60))
      \<and> list_all is_digit (fmt_0d 2 (secs mod 60))
      \<and> 2 \<le> length (fmt_0d 2 (secs div 3600))
      \<and> length (fmt_0d 2 (secs mod 3600 div 60)) = 2
      \<and> length (fmt_0d 2 (secs mod 60)) = 2
      \<and> digits_val (fmt_0d 2 (secs div 3600)) * 3600
          + digits_val (fmt_0d 2 (secs mod 3600 div 60)) * 60
          + digits_val (fmt_0d 2 (secs mod 60)) = secs)
   \<and> time_remaining 3661 = ''01:01:01''
   \<and> time_remaining 0 = ''00:00:00''
   \<and> time_remaining 360000 = ''100:00:00''"
proof (intro conjI impI)
  assume nonneg: "0 \<le> secs"
  define H where "H = secs div 3600"
  define M where "M = secs mod 3600 div 60"
  define S where "S = secs mod 60"
  have H: "0 \<le> H" using nonneg by (simp add: H_def)
  have M: "0 \<le> M" "M < 100" by (simp_all add: M_def)
  have S: "0 \<le> S" "S < 100" by (simp_all add: S_def)
  have sum: "H * 3600 + M * 60 + S = secs" unfolding H_def M_def S_def by (rule hms_sum)
  show "time_remaining secs =
        fmt_0d 2 (secs div 3600) @ '':'' @ fmt_0d 2 (secs mod 3600 div 60) @ '':''
        @ fmt_0d 2 (secs mod 60)"
    by (simp add: time_remaining_def)
  show "list_all is_digit (fmt_0d 2 (secs div 3600))"
    using fmt_0d_props(1) [OF H] by (simp add: H_def)
  show "list_all is_digit (fmt_0d 2 (secs mod 3600 div 60))"
    using fmt_0d_props(1) [OF M(1)] by (simp add: M_def)
  show "list_all is_digit (fmt_0d 2 (secs mod 60))"
    using fmt_0d_props(1) [OF S(1)] by (simp add: S_def)
  show "2 \<le> length (fmt_0d 2 (secs div 3600))"
    using fmt_0d_props(3) [OF H] by (simp add: H_def)
  show "length (fmt_0d 2 (secs mod 3600 div 60)) = 2"
    using fmt_0d_props(4) [OF M] by (simp add: M_def)
  show "length (fmt_0d 2 (secs mod 60)) = 2"
    using fmt_0d_props(4) [OF S] by (simp add: S_def)
  have "digits_val (fmt_0d 2 H) * 3600 + digits_val (fmt_0d 2 M) * 60
          + digits_val (fmt_0d 2 S) = secs"
    unfolding fmt_0d_props(2) [OF H] fmt_0d_props(2) [OF M(1)] fmt_0d_props(2) [OF S(1)]
    by (rule sum)
  then show "digits_val (fmt_0d 2 (secs div 3600)) * 3600
          + digits_val (fmt_0d 2 (secs mod 3600 div 60)) * 60
          + digits_val (fmt_0d 2 (secs mod 60)) = secs"
    by (simp only: H_def M_def S_def)
next
  show "time_remaining 3661 = ''01:01:01''" by code_simp
next
  show "time_remaining 0 = ''00:00:00''" by code_simp
next
  show "time_remaining 360000 = ''100:00:00''" by code_simp
qed

theorem time_remaining_hms_witness:
  "0 \<le> (7325::int) \<and> list_all is_digit (fmt_0d 2 (7325 div 3600))
   \<and> length (fmt_0d 2 (7325 mod 60)) = 2
   \<and> digits_val (fmt_0d 2 (7325 div 3600)) * 3600
          + digits_val (fmt_0d 2 (7325 mod 3600 div 60)) * 60
          + digits_val (fmt_0d 2 (7325 mod 60)) = 7325"
proof -
  have h: "0 \<le> (7325::int)" by simp
  from time_remaining_hms [of 7325, THEN conjunct1, THEN mp, OF h] h
  show ?thesis by blast
qed

section \<open>The cells of the progress bar\<close>

text \<open>
  Claim C8. For a percentage between 0 and 100, the bar of width 20 made by
  \<open>create_progress_bar\<close> has \<open>floor(20 * percent / 100)\<close> full blocks followed by
  the light shades that complete the 20 cells; 0 gives no full block and 100 gives 20.
\<close>

lemma nat_twenty_minus: "0 \<le> k \<Longrightarrow> nat (20 - k) = 20 - nat k"
  by simp

theorem create_progress_bar_cells:
  "(0 \<le> p \<and> p \<le> 100 \<longrightarrow>
      filled_width p 20 = \<lfloor>20 * p / 100\<rfloor>
      \<and> 0 \<le> filled_width p 20 \<and> filled_width p 20 \<le> 20
      \<and> create_progress_bar p 20 =
          concat (replicate (nat \<lfloor>20 * p / 100\<rfloor>) full_block)
          @ concat (replicate (20 - nat \<lfloor>20 * p / 100\<rfloor>) light_shade))
   \<and> filled_width 0 20 = 0 \<and> filled_width 100 20 = 20
   \<and> create_progress_bar 0 20 = concat (replicate 20 light_shade)
   \<and> create_progress_bar 100 20 = concat (replicate 20 full_block)"
proof (intro conjI impI)
  assume range: "0 \<le> p \<and> p \<le> 100"
  define k where "k = \<lfloor>20 * p / 100\<rfloor>"
  have q: "0 \<le> 20 * p / 100" "20 * p / 100 \<le> 20" using range by simp_all
  have fw: "filled_width p 20 = k"
    using q(1) by (simp add: filled_width_def py_trunc_def k_def)
  have lo: "0 \<le> k" unfolding k_def using q(1) by (rule zero_le_floor [THEN iffD2])
  have hi: "k \<le> 20" unfolding k_def using q(2) by (simp add: floor_le_iff)
  show "filled_width p 20 = \<lfloor>20 * p / 100\<rfloor>" using fw by (simp only: k_def)
  show "0 \<le> filled_width p 20" using lo by (simp only: fw)
  show "filled_width p 20 \<le> 20" using hi by (simp only: fw)
  have "create_progress_bar p 20 =
          concat (replicate (nat k) full_block) @ concat (replicate (20 - nat k) light_shade)"
    unfolding create_progress_bar_def py_repeat_def fw nat_twenty_minus [OF lo] by (rule refl)
  then show "create_progress_bar p 20 =
          concat (replicate (nat \<lfloor>20 * p / 100\<rfloor>) full_block)
          @ concat (replicate (20 - nat \<lfloor>20 * p / 100\<rfloor>) light_shade)"
    by (simp only: k_def)
next
  show "filled_width 0 20 = 0" by (simp add: filled_width_def py_trunc_def)
next
  show "filled_width 100 20 = 20" by (simp add: filled_width_def py_trunc_def)
next
  show "create_progress_bar 0 20 = concat (replicate 20 light_shade)"
    by (simp add: create_progress_bar_def py_repeat_def filled_width_def py_trunc_def)
next
  show "create_progress_bar 100 20 = concat (replicate 20 full_block)"
    by (simp add: create_progress_bar_def py_repeat_def filled_width_def py_trunc_def)
qed

theorem create_progress_bar_cells_witness:
  "(0::real) \<le> 37 \<and> (37::real) \<le> 100 \<and> filled_width 37 20 = 7
   \<and> create_progress_bar 37 20 =
        concat (replicate 7 full_block) @ concat (replicate 13 light_shade)"
proof -
  have h: "(0::real) \<le> 37 \<and> (37::real) \<le> 100" by simp
  have f: "\<lfloor>20 * (37::real) / 100\<rfloor> = 7" by simp
  from create_progress_bar_cells [of 37, THEN conjunct1, THEN mp, OF h] h
  show ?thesis unfolding f by simp
qed

section \<open>Facts about one line of output\<close>

lemma startswith_nonempty: "startswith l ''frame='' \<Longrightarrow> l \<noteq> []"
  by (auto simp: startswith_def)

lemma encode_video_line_status:
  assumes "startswith (strip raw) ''frame=''"
    and "frame_match (strip raw) = Some g"
    and "encoding_speed_of (strip raw) = Inr sp" and "0 < sp"
    and "current_bitrate_of (strip raw) = Inr br"
    and "frame_count info = Some t" and "t \<noteq> 0"
    and "fps info = Some f" and "f \<noteq> 0"
  shows "encode_video_line info osz raw =
           Inr (Status (render_status info osz (strip raw) (digits_val g) t f sp br))"
  using assms startswith_nonempty [OF assms(1)]
  by (simp add: encode_video_line_def Let_def)

lemma encode_video_line_raw:
  assumes "startswith (strip raw) ''frame=''"
    and "encoding_speed_of (strip raw) = Inr 0"
    and "current_bitrate_of (strip raw) = Inr br"
  shows "encode_video_line info osz raw = Inr (RawProgress (strip raw))"
  using assms startswith_nonempty [OF assms(1)]
  by (simp add: encode_video_line_def Let_def split: option.splits)

lemma encode_video_line_no_status:
  assumes "startswith (strip raw) ''frame=''"
    and "encoding_speed_of (strip raw) = Inr 0"
  shows "encode_video_line info osz raw \<noteq> Inr (Status s)"
  using assms startswith_nonempty [OF assms(1)]
  by (simp add: encode_video_line_def Let_def split: option.splits sum.splits)

lemma encode_video_line_other:
  assumes "strip raw \<noteq> []" and "\<not> startswith (strip raw) ''frame=''"
  shows "encode_video_line info osz raw = Inr (OtherOutput (strip raw))"
  using assms by (simp add: encode_video_line_def Let_def)

lemma strip_id:
  assumes "raw \<noteq> []" and "\<not> py_isspace (hd raw)" and "\<not> py_isspace (last raw)"
  shows "strip raw = raw"
proof -
  from assms(1,2) have l: "lstrip raw = raw"
    by (cases raw) (simp_all add: lstrip_def)
  from assms(1,3) have "dropWhile py_isspace (rev raw) = rev raw"
    by (cases "rev raw") (simp_all add: last_rev [symmetric] hd_rev)
  then have "rstrip raw = raw" by (simp add: rstrip_def)
  with l show ?thesis by (simp add: strip_def)
qed

lemma strip_nonempty: "strip raw \<noteq> [] \<Longrightarrow> raw \<noteq> []"
  by (auto simp: strip_def lstrip_def rstrip_def)

lemma speed_default: "speed_match l = None \<Longrightarrow> encoding_speed_of l = Inr 0"
  by (simp add: encoding_speed_of_def)

lemma py_trunc_sign:
  "0 \<le> x \<Longrightarrow> 0 \<le> py_trunc x" "x \<le> 0 \<Longrightarrow> py_trunc x \<le> 0"
  by (auto simp: py_trunc_def ceiling_le_iff)

lemma fmt_zero: "fmt_d 3 0 = ''  0''" "fmt_f1 5 0 = ''  0.0''" "fmt_f1 6 0 = ''   0.0''"
  by code_simp+

section \<open>Remaining frames\<close>

text \<open>
  Claim C1, amended. For every progress line where the current frame, a total number of
  frames that is not zero, a frame rate that is not zero and a speed above 0 are known
  (and whose bitrate field, when there is one, is a decimal number), the status line is
  printed and no exception is raised; the time remaining in it is computed from
  \<open>total_frames - current_frame\<close> as it is, with no clamping. That difference and the
  seconds remaining are not negative when the current frame is at most \<open>total_frames\<close>
  and the frame rate is positive; the difference is negative when the current frame is
  beyond \<open>total_frames\<close>.
\<close>

theorem remaining_frames_unclamped:
  assumes "startswith (strip raw) ''frame=''"
    and "frame_match (strip raw) = Some g"
    and "encoding_speed_of (strip raw) = Inr sp" and "0 < sp"
    and "current_bitrate_of (strip raw) = Inr br"
    and "frame_count info = Some t" and "t \<noteq> 0"
    and "fps info = Some f" and "f \<noteq> 0"
  shows "encode_video_line info osz raw =
           Inr (Status (enhanced_progress (digits_val g) t
             (progress_percent (digits_val g) t)
             (current_fps_of (strip raw))
             (fl (of_int (current_size_kb_of (strip raw)) / 1024))
             (estimated_final_size_mb (progress_percent (digits_val g) t) osz)
             (encoded_time_of (strip raw))
             (format_duration (duration info))
             (time_remaining (py_trunc (fl (fl (of_int (t - digits_val g)) / fl (f * sp)))))
             br sp))
         \<and> remaining_frames t (digits_val g) = t - digits_val g
         \<and> (digits_val g \<le> t \<and> 0 < f \<longrightarrow>
              0 \<le> remaining_frames t (digits_val g)
              \<and> 0 \<le> seconds_remaining t (digits_val g) f sp)
         \<and> (t < digits_val g \<longrightarrow> remaining_frames t (digits_val g) < 0)
         \<and> (t < digits_val g \<and> 0 < f \<longrightarrow> seconds_remaining t (digits_val g) f sp \<le> 0)"
proof (intro conjI impI)
  show "encode_video_line info osz raw =
           Inr (Status (enhanced_progress (digits_val g) t
             (progress_percent (digits_val g) t)
             (current_fps_of (strip raw))
             (fl (of_int (current_size_kb_of (strip raw)) / 1024))
             (estimated_final_size_mb (progress_percent (digits_val g) t) osz)
             (encoded_time_of (strip raw))
             (format_duration (duration info))
             (time_remaining (py_trunc (fl (fl (of_int (t - digits_val g)) / fl (f * sp)))))
             br sp))"
    unfolding encode_video_line_status [OF assms]
    by (simp add: render_status_def seconds_remaining_def remaining_frames_def)
  show "remaining_frames t (digits_val g) = t - digits_val g"
    by (simp add: remaining_frames_def)
next
  assume a: "digits_val g \<le> t \<and> 0 < f"
  then show "0 \<le> remaining_frames t (digits_val g)" by (simp add: remaining_frames_def)
  from a have n: "0 \<le> fl (real_of_int (t - digits_val g))" by (intro fl_nonneg) simp
  from a assms(4) have d: "0 < fl (f * sp)" by (intro fl_pos) simp
  from n d have "0 \<le> fl (fl (real_of_int (t - digits_val g)) / fl (f * sp))"
    by (intro fl_nonneg) simp
  then show "0 \<le> seconds_remaining t (digits_val g) f sp"
    unfolding seconds_remaining_def remaining_frames_def by (rule py_trunc_sign(1))
next
  assume "t < digits_val g"
  then show "remaining_frames t (digits_val g) < 0" by (simp add: remaining_frames_def)
next
  assume a: "t < digits_val g \<and> 0 < f"
  then have n: "fl (real_of_int (t - digits_val g)) \<le> 0" by (intro fl_nonpos) simp
  from a assms(4) have d: "0 < fl (f * sp)" by (intro fl_pos) simp
  from n d have "fl (fl (real_of_int (t - digits_val g)) / fl (f * sp)) \<le> 0"
    by (intro fl_nonpos) (simp add: divide_nonpos_pos)
  then show "seconds_remaining t (digits_val g) f sp \<le> 0"
    unfolding seconds_remaining_def remaining_frames_def by (rule py_trunc_sign(2))
qed

theorem remaining_frames_unclamped_witness:
  "encode_video_line \<lparr>frame_count = Some 250, fps = Some 25, duration = Some 10\<rparr> None
      ''frame=  195 speed=1.1x''
     = Inr (Status (CR @ ''Frame:    195/   250 | '' @ concat (replicate 15 full_block)
         @ concat (replicate 5 light_shade)
         @ ''  78.0% |   0fps |   0.0MB / est.    0.0MB | Encoded: 00:00:00 / 00:00:10 | est. 00:00:01 remaining |    0.0kb/s | 1.1x | Est. Size:    0.0MB''))
   \<and> remaining_frames 250 195 = 55
   \<and> 0 \<le> seconds_remaining 250 195 25 (fl (11 / 10))"
proof -
  let ?raw = "''frame=  195 speed=1.1x''"
  let ?info = "\<lparr>frame_count = Some 250, fps = Some (25::real), duration = Some (10::real)\<rparr>"
  have s: "strip ?raw = ?raw" by code_simp
  have 1: "startswith (strip ?raw) ''frame=''" unfolding s by code_simp
  have 2: "frame_match (strip ?raw) = Some ''195''" unfolding s by code_simp
  have 3: "encoding_speed_of (strip ?raw) = Inr (fl (11 / 10))" unfolding s by code_simp
  have 4: "0 < fl (11 / 10)" by (rule fl_pos) simp
  have 5: "current_bitrate_of (strip ?raw) = Inr 0" unfolding s by code_simp
  have 6: "frame_count ?info = Some 250" "(250::int) \<noteq> 0" by simp_all
  have 7: "fps ?info = Some 25" "(25::real) \<noteq> 0" by simp_all
  have d: "digits_val ''195'' = 195" by code_simp
  have v: "enhanced_progress 195 250
             (progress_percent 195 250)
             (current_fps_of ?raw)
             (fl (of_int (current_size_kb_of ?raw) / 1024))
             (estimated_final_size_mb (progress_percent 195 250) None)
             (encoded_time_of ?raw)
             (format_duration (duration ?info))
             (time_remaining (py_trunc (fl (fl (of_int (250 - 195)) / fl (25 * fl (11 / 10))))))
             0 (fl (11 / 10))
     = CR @ ''Frame:    195/   250 | '' @ concat (replicate 15 full_block)
         @ concat (replicate 5 light_shade)
         @ ''  78.0% |   0fps |   0.0MB / est.    0.0MB | Encoded: 00:00:00 / 00:00:10 | est. 00:00:01 remaining |    0.0kb/s | 1.1x | Est. Size:    0.0MB''"
    by code_simp
  have h: "(195::int) \<le> 250 \<and> (0::real) < 25" by simp
  note t = remaining_frames_unclamped [OF 1 2 3 4 5 6 7, of None, unfolded s d]
  from t [THEN conjunct1] have a: "encode_video_line ?info None ?raw
     = Inr (Status (CR @ ''Frame:    195/   250 | '' @ concat (replicate 15 full_block)
         @ concat (replicate 5 light_shade)
         @ ''  78.0% |   0fps |   0.0MB / est.    0.0MB | Encoded: 00:00:00 / 00:00:10 | est. 00:00:01 remaining |    0.0kb/s | 1.1x | Est. Size:    0.0MB''))"
    unfolding v .
  from t [THEN conjunct2, THEN conjunct1] have b: "remaining_frames 250 195 = 55" by simp
  from t [THEN conjunct2, THEN conjunct2, THEN conjunct1, THEN mp, OF h]
  have c: "0 \<le> seconds_remaining 250 195 25 (fl (11 / 10))" by blast
  from a b c show ?thesis by blast
qed

text \<open>With 100 frames in total and the encoder at frame 150, the difference is -50, not
  0, and the status line shows the time remaining as \<open>-1:59:58\<close>.\<close>

theorem remaining_frames_clamp_counterexample:
  "encode_video_line \<lparr>frame_count = Some 100, fps = Some 25, duration = Some 4\<rparr> None
      ''frame=  150 speed=1.0x''
    = Inr (Status (CR @ ''Frame:    150/   100 | '' @ concat (replicate 30 full_block)
        @ '' 150.0% |   0fps |   0.0MB / est.    0.0MB | Encoded: 00:00:00 / 00:00:04 | est. -1:59:58 remaining |    0.0kb/s | 1.0x | Est. Size:    0.0MB''))
   \<and> remaining_frames 100 150 = - 50
   \<and> remaining_frames 100 150 \<noteq> max 0 (100 - 150)
   \<and> seconds_remaining 100 150 25 1 = - 2
   \<and> time_remaining (seconds_remaining 100 150 25 1) = ''-1:59:58''"
proof (intro conjI)
  show "encode_video_line \<lparr>frame_count = Some 100, fps = Some 25, duration = Some 4\<rparr> None
      ''frame=  150 speed=1.0x''
    = Inr (Status (CR @ ''Frame:    150/   100 | '' @ concat (replicate 30 full_block)
        @ '' 150.0% |   0fps |   0.0MB / est.    0.0MB | Encoded: 00:00:00 / 00:00:04 | est. -1:59:58 remaining |    0.0kb/s | 1.0x | Est. Size:    0.0MB''))"
    by code_simp
  show "remaining_frames 100 150 = - 50" by (simp add: remaining_frames_def)
  show "remaining_frames 100 150 \<noteq> max 0 (100 - 150)" by (simp add: remaining_frames_def)
  show "seconds_remaining 100 150 25 1 = - 2" by code_simp
  show "time_remaining (seconds_remaining 100 150 25 1) = ''-1:59:58''" by code_simp
qed

section \<open>Lines that are not progress lines\<close>

text \<open>
  Claim C2, amended. For every line read that, once the whitespace around it is
  stripped, is not empty and does not start with \<open>frame=\<close>, the stripped line is
  printed on a line of its own; the bytes printed are those of the line read when it has
  no whitespace at either end.
\<close>

theorem other_line_printed_stripped:
  assumes "strip raw \<noteq> []" and "\<not> startswith (strip raw) ''frame=''"
  shows "encode_video_line info osz raw = Inr (OtherOutput (strip raw))
         \<and> stdout_text (OtherOutput (strip raw)) = strip raw @ LF
         \<and> (\<not> py_isspace (hd raw) \<and> \<not> py_isspace (last raw) \<longrightarrow>
              stdout_text (OtherOutput (strip raw)) = raw @ LF)"
  using encode_video_line_other [OF assms] strip_id [OF strip_nonempty [OF assms(1)]]
  by simp

theorem other_line_printed_stripped_witness:
  "strip ''[libsvtav1] Encoder'' \<noteq> [] \<and> \<not> startswith (strip ''[libsvtav1] Encoder'') ''frame=''
   \<and> encode_video_line no_info None ''[libsvtav1] Encoder'' = Inr (OtherOutput ''[libsvtav1] Encoder'')
   \<and> stdout_text (OtherOutput ''[libsvtav1] Encoder'') = ''[libsvtav1] Encoder'' @ LF"
proof -
  have s: "strip ''[libsvtav1] Encoder'' = ''[libsvtav1] Encoder''" by code_simp
  have 1: "strip ''[libsvtav1] Encoder'' \<noteq> []" unfolding s by simp
  have 2: "\<not> startswith (strip ''[libsvtav1] Encoder'') ''frame=''" unfolding s by code_simp
  from other_line_printed_stripped [OF 1 2, of no_info None] 1 2
  show ?thesis unfolding s by simp
qed

text \<open>A line that is indented loses its indentation.\<close>

theorem other_line_unchanged_counterexample:
  "''  Duration: N/A'' \<noteq> [] \<and> \<not> startswith ''  Duration: N/A'' ''frame=''
   \<and> encode_video_line no_info None ''  Duration: N/A'' = Inr (OtherOutput ''Duration: N/A'')
   \<and> stdout_text (OtherOutput ''Duration: N/A'') = ''Duration: N/A'' @ LF
   \<and> stdout_text (OtherOutput ''Duration: N/A'') \<noteq> ''  Duration: N/A'' @ LF"
proof (intro conjI)
  show "''  Duration: N/A'' \<noteq> []" by simp
  show "\<not> startswith ''  Duration: N/A'' ''frame=''" by code_simp
  show "encode_video_line no_info None ''  Duration: N/A'' = Inr (OtherOutput ''Duration: N/A'')"
    by code_simp
  show "stdout_text (OtherOutput ''Duration: N/A'') = ''Duration: N/A'' @ LF" by simp
  show "stdout_text (OtherOutput ''Duration: N/A'') \<noteq> ''  Duration: N/A'' @ LF" by simp
qed

section \<open>Progress lines without a speed\<close>

text \<open>
  Claim C3. For every line that starts with \<open>frame=\<close> once stripped, if the speed is
  absent or equal to 0, no status line is printed, so that no time remaining is computed
  and nothing is divided by the speed; an absent speed counts as 0, never as 1.0, and
  raises nothing. The line itself, stripped, is printed after a carriage return; this
  supposes that \<open>float\<close> reads the bitrate when the line has one, as it does for the
  bitrate the encoder prints, a number with one decimal, and for its \<open>N/A\<close>, which
  the pattern does not match.
\<close>

theorem no_speed_no_status:
  assumes "startswith (strip raw) ''frame=''"
    and "speed_match (strip raw) = None \<or> encoding_speed_of (strip raw) = Inr 0"
  shows "(\<forall>s. encode_video_line info osz raw \<noteq> Inr (Status s))
         \<and> (speed_match (strip raw) = None \<longrightarrow> encoding_speed_of (strip raw) = Inr 0)
         \<and> (current_bitrate_of (strip raw) \<noteq> Inl ValueError \<longrightarrow>
              encode_video_line info osz raw = Inr (RawProgress (strip raw))
              \<and> stdout_text (RawProgress (strip raw)) = CR @ strip raw)"
proof -
  from assms(2) have z: "encoding_speed_of (strip raw) = Inr 0"
    using speed_default by blast
  have a: "\<forall>s. encode_video_line info osz raw \<noteq> Inr (Status s)"
    using encode_video_line_no_status [OF assms(1) z] by blast
  have b: "speed_match (strip raw) = None \<longrightarrow> encoding_speed_of (strip raw) = Inr 0"
    using speed_default by blast
  have c: "current_bitrate_of (strip raw) \<noteq> Inl ValueError \<longrightarrow>
              encode_video_line info osz raw = Inr (RawProgress (strip raw))
              \<and> stdout_text (RawProgress (strip raw)) = CR @ strip raw"
  proof
    assume "current_bitrate_of (strip raw) \<noteq> Inl ValueError"
    then obtain br where "current_bitrate_of (strip raw) = Inr br"
      by (auto simp: current_bitrate_of_def split: option.splits)
    from encode_video_line_raw [OF assms(1) z this]
    show "encode_video_line info osz raw = Inr (RawProgress (strip raw))
              \<and> stdout_text (RawProgress (strip raw)) = CR @ strip raw" by simp
  qed
  from a b c show ?thesis by blast
qed

theorem no_speed_no_status_witness:
  "startswith (strip ''frame=   10 fps= 25 bitrate=N/A'') ''frame=''
   \<and> speed_match (strip ''frame=   10 fps= 25 bitrate=N/A'') = None
   \<and> encode_video_line \<lparr>frame_count = Some 250, fps = Some 25, duration = Some 10\<rparr> None
        ''frame=   10 fps= 25 bitrate=N/A'' = Inr (RawProgress ''frame=   10 fps= 25 bitrate=N/A'')"
proof -
  have s: "strip ''frame=   10 fps= 25 bitrate=N/A'' = ''frame=   10 fps= 25 bitrate=N/A''"
    by code_simp
  have 1: "startswith (strip ''frame=   10 fps= 25 bitrate=N/A'') ''frame=''"
    unfolding s by code_simp
  have 2: "speed_match (strip ''frame=   10 fps= 25 bitrate=N/A'') = None"
    unfolding s by code_simp
  have 3: "current_bitrate_of (strip ''frame=   10 fps= 25 bitrate=N/A'') \<noteq> Inl ValueError"
    unfolding s by code_simp
  from no_speed_no_status [OF 1 disjI1 [OF 2]] 3
  have "encode_video_line \<lparr>frame_count = Some 250, fps = Some 25, duration = Some 10\<rparr> None
        ''frame=   10 fps= 25 bitrate=N/A''
      = Inr (RawProgress (strip ''frame=   10 fps= 25 bitrate=N/A''))"
    by blast
  with 1 2 show ?thesis unfolding s by blast
qed

section \<open>Defaults of the absent fields\<close>

text \<open>
  Claim C10. The status line is printed whenever the progress line gives the current
  frame and a speed above 0 and the total number of frames and the frame rate are known,
  whatever the fields fps, size, time and bitrate of the line are. The total and the
  frame rate are known when they are not zero: lines 173 to 176 take a total of 0 as not
  determined. A bitrate that the line has is a number that \<open>float\<close> reads, as the
  encoder prints it. A field that is absent is shown with its default: fps as 0, the
  size as 0 KiB and so 0.0 MB, the bitrate as 0.0 kb/s, the encoded time as 00:00:00.
\<close>

theorem absent_fields_defaults:
  assumes "startswith (strip raw) ''frame=''"
    and "frame_match (strip raw) = Some g"
    and "encoding_speed_of (strip raw) = Inr sp" and "0 < sp"
    and "current_bitrate_of (strip raw) = Inr br"
    and "frame_count info = Some t" and "t \<noteq> 0"
    and "fps info = Some f" and "f \<noteq> 0"
  shows "encode_video_line info osz raw =
           Inr (Status (enhanced_progress (digits_val g) t
             (progress_percent (digits_val g) t)
             (current_fps_of (strip raw))
             (fl (of_int (current_size_kb_of (strip raw)) / 1024))
             (estimated_final_size_mb (progress_percent (digits_val g) t) osz)
             (encoded_time_of (strip raw))
             (format_duration (duration info))
             (time_remaining (seconds_remaining t (digits_val g) f sp))
             br sp))
         \<and> (fps_match (strip raw) = None \<longrightarrow>
              current_fps_of (strip raw) = 0 \<and> fmt_d 3 (current_fps_of (strip raw)) = ''  0'')
         \<and> (size_match (strip raw) = None \<longrightarrow>
              current_size_kb_of (strip raw) = 0
              \<and> fmt_f1 5 (fl (of_int (current_size_kb_of (strip raw)) / 1024)) = ''  0.0'')
         \<and> (bitrate_match (strip raw) = None \<longrightarrow> br = 0 \<and> fmt_f1 6 br = ''   0.0'')
         \<and> (time_match (strip raw) = None \<longrightarrow> encoded_time_of (strip raw) = ''00:00:00'')"
proof (intro conjI impI)
  show "encode_video_line info osz raw =
           Inr (Status (enhanced_progress (digits_val g) t
             (progress_percent (digits_val g) t)
             (current_fps_of (strip raw))
             (fl (of_int (current_size_kb_of (strip raw)) / 1024))
             (estimated_final_size_mb (progress_percent (digits_val g) t) osz)
             (encoded_time_of (strip raw))
             (format_duration (duration info))
             (time_remaining (seconds_remaining t (digits_val g) f sp))
             br sp))"
    unfolding encode_video_line_status [OF assms] by (simp add: render_status_def)
next
  assume a: "fps_match (strip raw) = None"
  then show z: "current_fps_of (strip raw) = 0" by (simp add: current_fps_of_def)
  show "fmt_d 3 (current_fps_of (strip raw)) = ''  0''" unfolding z by (rule fmt_zero)
next
  assume a: "size_match (strip raw) = None"
  then show z: "current_size_kb_of (strip raw) = 0" by (simp add: current_size_kb_of_def)
  have "fmt_f1 5 (fl (of_int 0 / 1024)) = ''  0.0''" using fmt_zero(2) by (simp add: fl_zero)
  then show "fmt_f1 5 (fl (of_int (current_size_kb_of (strip raw)) / 1024)) = ''  0.0''"
    unfolding z .
next
  assume a: "bitrate_match (strip raw) = None"
  with assms(5) show z: "br = 0" by (simp add: current_bitrate_of_def)
  show "fmt_f1 6 br = ''   0.0''" unfolding z by (rule fmt_zero)
next
  assume a: "time_match (strip raw) = None"
  then show "encoded_time_of (strip raw) = ''00:00:00''" by (simp add: encoded_time_of_def)
qed

theorem absent_fields_defaults_witness:
  "encode_video_line \<lparr>frame_count = Some 250, fps = Some 25, duration = Some 10\<rparr> None
      ''frame=  100 speed=2.15x''
     = Inr (Status (CR @ ''Frame:    100/   250 | '' @ concat (replicate 8 full_block)
         @ concat (replicate 12 light_shade)
         @ ''  40.0% |   0fps |   0.0MB / est.    0.0MB | Encoded: 00:00:00 / 00:00:10 | est. 00:00:02 remaining |    0.0kb/s | 2.1x | Est. Size:    0.0MB''))"
proof -
  let ?raw = "''frame=  100 speed=2.15x''"
  let ?info = "\<lparr>frame_count = Some 250, fps = Some (25::real), duration = Some (10::real)\<rparr>"
  have s: "strip ?raw = ?raw" by code_simp
  have 1: "startswith (strip ?raw) ''frame=''" unfolding s by code_simp
  have 2: "frame_match (strip ?raw) = Some ''100''" unfolding s by code_simp
  have 3: "encoding_speed_of (strip ?raw) = Inr (fl (215 / 100))" unfolding s by code_simp
  have 4: "0 < fl (215 / 100)" by (rule fl_pos) simp
  have 5: "current_bitrate_of (strip ?raw) = Inr 0" unfolding s by code_simp
  have 6: "frame_count ?info = Some 250" "(250::int) \<noteq> 0" by simp_all
  have 7: "fps ?info = Some 25" "(25::real) \<noteq> 0" by simp_all
  have v: "enhanced_progress (digits_val ''100'') 250
             (progress_percent (digits_val ''100'') 250)
             (current_fps_of ?raw)
             (fl (of_int (current_size_kb_of ?raw) / 1024))
             (estimated_final_size_mb (progress_percent (digits_val ''100'') 250) None)
             (encoded_time_of ?raw)
             (format_duration (duration ?info))
             (time_remaining (seconds_remaining 250 (digits_val ''100'') 25 (fl (215 / 100))))
             0 (fl (215 / 100))
     = CR @ ''Frame:    100/   250 | '' @ concat (replicate 8 full_block)
         @ concat (replicate 12 light_shade)
         @ ''  40.0% |   0fps |   0.0MB / est.    0.0MB | Encoded: 00:00:00 / 00:00:10 | est. 00:00:02 remaining |    0.0kb/s | 2.1x | Est. Size:    0.0MB''"
    by code_simp
  from absent_fields_defaults [OF 1 2 3 4 5 6 7, of None, THEN conjunct1]
  show ?thesis unfolding s v .
qed

section \<open>Facts about \<open>get_video_info\<close>\<close>

lemma split_on_nonempty: "split_on sep s \<noteq> []"
  by (induction s) (auto split: list.splits)

lemma split_on_no_sep: "sep \<notin> set a \<Longrightarrow> split_on sep a = [a]"
  by (induction a) auto

lemma split_on_sep: "sep \<notin> set a \<Longrightarrow> split_on sep (a @ sep # r) = a # split_on sep r"
  by (induction a) auto

lemma first_field: "xs \<noteq> [] \<Longrightarrow> (case xs of [] \<Rightarrow> [] | x # _ \<Rightarrow> x) = hd xs"
  by (cases xs) simp_all

lemma get_video_info_try_eq:
  "get_video_info_try (Inr out) =
     (case parse_frame_rate (hd (split_on CHR '','' (strip out))) of
        Inl e \<Rightarrow> Inl e
      | Inr f \<Rightarrow>
          (case parse_duration (split_on CHR '','' (strip out)) of Inl e \<Rightarrow> Inl e
           | Inr d \<Rightarrow> Inr \<lparr>frame_count = frame_count_of d f, fps = Some f, duration = d\<rparr>))"
  by (simp add: get_video_info_try_def Let_def first_field [OF split_on_nonempty])

lemma get_video_info_try_fields:
  assumes "get_video_info_try c = Inr i"
  shows "\<exists>f. fps i = Some f \<and> frame_count i = frame_count_of (duration i) f"
proof (cases c)
  case (Inl e)
  with assms show ?thesis by (simp add: get_video_info_try_def)
next
  case (Inr out)
  with assms show ?thesis
    by (auto simp: get_video_info_try_eq split: sum.splits)
qed

lemma get_video_info_cases:
  "(\<exists>e. get_video_info_try c = Inl e \<and> get_video_info c = no_info)
   \<or> (\<exists>i. get_video_info_try c = Inr i \<and> get_video_info c = i)"
  by (cases "get_video_info_try c") (simp_all add: get_video_info_def)

lemma frame_count_of_None: "frame_count_of None f = None"
  by (simp add: frame_count_of_def)

section \<open>Failures of the probe\<close>

text \<open>
  Claim C4, amended. \<open>get_video_info\<close> never raises, and its three fields are all
  absent exactly when the body of its \<open>try\<close> raised: when the inspection tool exits with
  a code that is not zero or cannot be run, when the frame rate or the duration is not a
  number, when the frame rate is \<open>N/D\<close> with \<open>D = 0\<close>. A missing duration field is not
  such a failure: the frame rate is kept, and the duration and the total of frames are
  absent.
\<close>

theorem get_video_info_failure:
  "(get_video_info c = no_info \<longleftrightarrow> (\<exists>e. get_video_info_try c = Inl e))
   \<and> get_video_info (Inl e) = no_info
   \<and> (parse_frame_rate (hd (split_on CHR '','' (strip out))) = Inl e \<longrightarrow>
        get_video_info (Inr out) = no_info)
   \<and> (parse_duration (split_on CHR '','' (strip out)) = Inl e \<longrightarrow>
        get_video_info (Inr out) = no_info)
   \<and> (py_int a = Some n \<and> py_int b = Some 0 \<and> CHR ''/'' \<notin> set a \<and> CHR ''/'' \<notin> set b \<longrightarrow>
        parse_frame_rate (a @ ''/'' @ b) = Inl ZeroDivisionError)
   \<and> (split_on CHR '','' (strip out) = [x] \<and> parse_frame_rate x = Inr f \<longrightarrow>
        get_video_info (Inr out) = \<lparr>frame_count = None, fps = Some f, duration = None\<rparr>)"
proof (intro conjI impI)
  show "get_video_info c = no_info \<longleftrightarrow> (\<exists>e. get_video_info_try c = Inl e)"
  proof
    assume a: "get_video_info c = no_info"
    show "\<exists>e. get_video_info_try c = Inl e"
    proof (cases "get_video_info_try c")
      case (Inl e)
      then show ?thesis by blast
    next
      case (Inr i)
      from get_video_info_try_fields [OF Inr] obtain f where "fps i = Some f" by blast
      moreover from Inr a have "i = no_info" by (simp add: get_video_info_def)
      ultimately show ?thesis by (simp add: no_info_def)
    qed
  next
    assume "\<exists>e. get_video_info_try c = Inl e"
    then show "get_video_info c = no_info" by (auto simp: get_video_info_def)
  qed
  show "get_video_info (Inl e) = no_info"
    by (simp add: get_video_info_def get_video_info_try_def)
next
  assume "parse_frame_rate (hd (split_on CHR '','' (strip out))) = Inl e"
  then show "get_video_info (Inr out) = no_info"
    by (simp add: get_video_info_def get_video_info_try_eq)
next
  assume "parse_duration (split_on CHR '','' (strip out)) = Inl e"
  then show "get_video_info (Inr out) = no_info"
    by (simp add: get_video_info_def get_video_info_try_eq split: sum.splits)
next
  assume a: "py_int a = Some n \<and> py_int b = Some 0 \<and> CHR ''/'' \<notin> set a \<and> CHR ''/'' \<notin> set b"
  then have "split_on CHR ''/'' (a @ CHR ''/'' # b) = [a, b]"
    by (simp add: split_on_sep split_on_no_sep)
  with a show "parse_frame_rate (a @ ''/'' @ b) = Inl ZeroDivisionError"
    by (simp add: parse_frame_rate_def)
next
  assume a: "split_on CHR '','' (strip out) = [x] \<and> parse_frame_rate x = Inr f"
  then show "get_video_info (Inr out) = \<lparr>frame_count = None, fps = Some f, duration = None\<rparr>"
    by (simp add: get_video_info_def get_video_info_try_eq parse_duration_def frame_count_of_None)
qed

theorem get_video_info_failure_witness:
  "get_video_info (Inr ''30/0,10.000000'') = no_info
   \<and> get_video_info (Inr ''25/1,N/A'') = no_info
   \<and> parse_frame_rate (''30'' @ ''/'' @ ''0'') = Inl ZeroDivisionError
   \<and> get_video_info (Inr ''24/1'')
       = \<lparr>frame_count = None, fps = Some 24, duration = None\<rparr>"
proof -
  have 1: "parse_frame_rate (hd (split_on CHR '','' (strip ''30/0,10.000000''))) = Inl ZeroDivisionError"
    by code_simp
  have 2: "parse_duration (split_on CHR '','' (strip ''25/1,N/A'')) = Inl ValueError"
    by code_simp
  have 3: "py_int ''30'' = Some 30 \<and> py_int ''0'' = Some 0 \<and> CHR ''/'' \<notin> set ''30'' \<and> CHR ''/'' \<notin> set ''0''"
    by code_simp
  have 4: "split_on CHR '','' (strip ''24/1'') = [''24/1'']
            \<and> parse_frame_rate ''24/1'' = Inr 24"
    by code_simp
  from get_video_info_failure [where out = "''30/0,10.000000''" and e = ZeroDivisionError] 1
  have a: "get_video_info (Inr ''30/0,10.000000'') = no_info" by blast
  from get_video_info_failure [where out = "''25/1,N/A''" and e = ValueError] 2
  have b: "get_video_info (Inr ''25/1,N/A'') = no_info" by blast
  from get_video_info_failure [where a = "''30''" and n = 30 and b = "''0''"] 3
  have c: "parse_frame_rate (''30'' @ ''/'' @ ''0'') = Inl ZeroDivisionError" by blast
  from get_video_info_failure [where out = "''24/1''" and x = "''24/1''" and f = "24"] 4
  have d: "get_video_info (Inr ''24/1'')
       = \<lparr>frame_count = None, fps = Some 24, duration = None\<rparr>" by blast
  from a b c d show ?thesis by blast
qed

text \<open>An output of the inspection tool with the frame rate only.\<close>

theorem missing_duration_counterexample:
  "get_video_info (Inr ''30/1'') = \<lparr>frame_count = None, fps = Some 30, duration = None\<rparr>
   \<and> get_video_info (Inr ''30/1'') \<noteq> no_info
   \<and> fps (get_video_info (Inr ''30/1'')) \<noteq> None"
proof -
  have "get_video_info (Inr ''30/1'') = \<lparr>frame_count = None, fps = Some 30, duration = None\<rparr>"
    by code_simp
  then show ?thesis by (simp add: no_info_def)
qed

section \<open>The total number of frames\<close>

text \<open>
  Claim C5, amended. In every result of \<open>get_video_info\<close>, the total of frames is
  \<open>int(duration * fps)\<close>, the product of the two floats, rounded as a float is, then
  cut toward zero, which is its floor when the product is not negative, as soon as the
  duration and the frame rate are both present and not zero; it is absent whenever one
  of the two is absent (missing or not a number) or zero.
\<close>

theorem frame_count_truncates:
  assumes "get_video_info c = i"
  shows "(duration i = Some d \<and> fps i = Some f \<and> d \<noteq> 0 \<and> f \<noteq> 0 \<longrightarrow>
            frame_count i = Some (py_trunc (fl (d * f)))
            \<and> (0 \<le> d * f \<longrightarrow> frame_count i = Some \<lfloor>fl (d * f)\<rfloor>))
         \<and> (duration i = None \<or> fps i = None \<or> duration i = Some 0 \<or> fps i = Some 0 \<longrightarrow>
            frame_count i = None)"
proof -
  from get_video_info_cases [of c] show ?thesis
  proof (elim disjE exE conjE)
    fix e assume "get_video_info c = no_info"
    with assms have "i = no_info" by simp
    then show ?thesis by (simp add: no_info_def)
  next
    fix j assume j: "get_video_info_try c = Inr j" "get_video_info c = j"
    with assms have ij: "j = i" by simp
    from get_video_info_try_fields [OF j(1)] ij obtain g
      where g: "fps i = Some g" "frame_count i = frame_count_of (duration i) g" by blast
    show ?thesis
    proof (intro conjI impI)
      assume a: "duration i = Some d \<and> fps i = Some f \<and> d \<noteq> 0 \<and> f \<noteq> 0"
      with g show t: "frame_count i = Some (py_trunc (fl (d * f)))"
        by (simp add: frame_count_of_def)
      assume "0 \<le> d * f"
      then have "0 \<le> fl (d * f)" by (rule fl_nonneg)
      then show "frame_count i = Some \<lfloor>fl (d * f)\<rfloor>" unfolding t by (simp add: py_trunc_def)
    next
      assume "duration i = None \<or> fps i = None \<or> duration i = Some 0 \<or> fps i = Some 0"
      with g show "frame_count i = None"
        by (auto simp: frame_count_of_def split: option.splits)
    qed
  qed
qed

theorem frame_count_truncates_witness:
  "get_video_info (Inr ''30/1,4.100000'')
     = \<lparr>frame_count = Some 122, fps = Some 30, duration = Some (fl (41 / 10))\<rparr>
   \<and> Some (122::int) = Some \<lfloor>fl (fl (41 / 10) * 30)\<rfloor>"
proof -
  define i where "i = \<lparr>frame_count = Some (122::int), fps = Some (30::real),
    duration = Some (fl (41 / 10))\<rparr>"
  have v: "get_video_info (Inr ''30/1,4.100000'') = i"
    unfolding i_def by code_simp
  have z: "fl (41 / 10) \<noteq> 0" by (simp add: fl_eq_0_iff)
  have h: "duration i = Some (fl (41 / 10)) \<and> fps i = Some 30 \<and> fl (41 / 10) \<noteq> 0
             \<and> (30::real) \<noteq> 0"
    using z by (simp add: i_def)
  have "0 \<le> fl (41 / 10)" by (rule fl_nonneg) simp
  then have n: "0 \<le> fl (41 / 10) * 30" by simp
  from frame_count_truncates [OF v, of "fl (41 / 10)" 30, THEN conjunct1, THEN mp, OF h]
  have "frame_count i = Some \<lfloor>fl (fl (41 / 10) * 30)\<rfloor>" using n by blast
  then have "Some (122::int) = Some \<lfloor>fl (fl (41 / 10) * 30)\<rfloor>"
    by (simp only: i_def video_info.simps)
  with v show ?thesis unfolding i_def by blast
qed

text \<open>A duration of zero seconds is a number, and the total of frames is absent, not 0.\<close>

theorem zero_duration_counterexample:
  "get_video_info (Inr ''30/1,0.000000'')
     = \<lparr>frame_count = None, fps = Some 30, duration = Some 0\<rparr>
   \<and> py_float ''0.000000'' = Some 0
   \<and> parse_frame_rate ''30/1'' = Inr 30
   \<and> frame_count (get_video_info (Inr ''30/1,0.000000'')) \<noteq> Some \<lfloor>(0::real) * 30\<rfloor>"
proof -
  have v: "get_video_info (Inr ''30/1,0.000000'')
     = \<lparr>frame_count = None, fps = Some 30, duration = Some 0\<rparr>" by code_simp
  have p: "py_float ''0.000000'' = Some 0" by code_simp
  have q: "parse_frame_rate ''30/1'' = Inr 30" by code_simp
  have r: "frame_count (get_video_info (Inr ''30/1,0.000000'')) \<noteq> Some \<lfloor>(0::real) * 30\<rfloor>"
    unfolding v by simp
  from v p q r show ?thesis by blast
qed

section \<open>Facts about the report of sizes\<close>

lemma round_half_even_near: "\<bar>of_int (round_half_even y) - y\<bar> \<le> 1 / 2"
proof -
  have "of_int \<lfloor>y\<rfloor> \<le> y" "y < of_int \<lfloor>y\<rfloor> + 1" by linarith+
  then show ?thesis by (auto simp: round_half_even_def Let_def)
qed

lemma round_half_even_nonneg: "0 \<le> y \<Longrightarrow> 0 \<le> round_half_even y"
proof -
  assume "0 \<le> y"
  then have "0 \<le> \<lfloor>y\<rfloor>" by simp
  then show ?thesis by (auto simp: round_half_even_def Let_def)
qed

lemma fmt_f1_one_decimal:
  "fmt_f1 0 x =
     (if x < 0 then ''-'' else []) @ show_nat (round_half_even (\<bar>x\<bar> * 10) div 10) @ ''.''
     @ [digit_chr (round_half_even (\<bar>x\<bar> * 10) mod 10)]"
  "list_all is_digit (show_nat (round_half_even (\<bar>x\<bar> * 10) div 10))"
  "is_digit (digit_chr (round_half_even (\<bar>x\<bar> * 10) mod 10))"
  "\<bar>of_int (round_half_even (\<bar>x\<bar> * 10)) / 10 - \<bar>x\<bar>\<bar> \<le> 1 / 20"
proof -
  define t where "t = round_half_even (\<bar>x\<bar> * 10)"
  have t0: "0 \<le> t" unfolding t_def by (rule round_half_even_nonneg) simp
  have m: "0 \<le> t mod 10" "t mod 10 < 10" by simp_all
  have d: "0 \<le> t div 10" using t0 by simp
  have s: "show_nat (t mod 10) = [digit_chr (t mod 10)]" using m(2) by (rule show_nat_small)
  show "fmt_f1 0 x =
     (if x < 0 then ''-'' else []) @ show_nat (round_half_even (\<bar>x\<bar> * 10) div 10) @ ''.''
     @ [digit_chr (round_half_even (\<bar>x\<bar> * 10) mod 10)]"
  proof -
    have "fmt_f1 0 x =
        pad_left CHR '' '' 0
          (if x < 0 then CHR ''-'' # show_nat (t div 10) @ ''.'' @ show_nat (t mod 10)
           else show_nat (t div 10) @ ''.'' @ show_nat (t mod 10))"
      by (simp only: fmt_f1_def Let_def t_def)
    also have "\<dots> = (if x < 0 then ''-'' else []) @ show_nat (t div 10) @ ''.''
        @ [digit_chr (t mod 10)]"
      unfolding s by (simp add: pad_left_def)
    finally show ?thesis by (simp only: t_def)
  qed
  show "list_all is_digit (show_nat (round_half_even (\<bar>x\<bar> * 10) div 10))"
    using show_nat_digits [OF d] by (simp add: t_def)
  show "is_digit (digit_chr (round_half_even (\<bar>x\<bar> * 10) mod 10))"
    using digit_chr_props(1) [OF m] by (simp add: t_def)
  have "\<bar>of_int t - \<bar>x\<bar> * 10\<bar> \<le> 1 / 2" unfolding t_def by (rule round_half_even_near)
  then have "\<bar>of_int t / 10 - \<bar>x\<bar>\<bar> \<le> 1 / 20" by linarith
  then show "\<bar>of_int (round_half_even (\<bar>x\<bar> * 10)) / 10 - \<bar>x\<bar>\<bar> \<le> 1 / 20"
    by (simp only: t_def)
qed

section \<open>The exit of the encoder and the log\<close>

text \<open>
  Claim C9. When the encoder exits with a code that is not zero, \<open>encode_video\<close>
  returns no output file and no report, and no log is written. When it exits with 0 and
  the output file exists, the log written has three lines: the original size in MB, the
  encoded size in MB and the reduction \<open>(original - encoded) / original * 100\<close>, each
  printed with one decimal digit, at most 0.05 away from the float printed. The original
  file is the video that the encoder has read, of a size above 0, and the path of the
  output file, which ends with the suffix of line 161, is not empty. An original of
  1000 MB and an encoded file of 400 MB give \<open>Reduction: 60.0%\<close>.
\<close>

theorem exit_and_log:
  "(return_code \<noteq> 0 \<longrightarrow>
      encode_video_exit return_code output_file original_size encoded = None
      \<and> log_written (encode_video_exit return_code output_file original_size encoded) = None)
   \<and> (0 < original_size \<and> output_file \<noteq> [] \<longrightarrow>
      log_written (encode_video_exit 0 output_file original_size (Some encoded_size)) =
        Some (''Original: '' @ fmt_f1 0 (fl (of_int original_size / 1024 ^ 2)) @ ''MB'' @ LF
              @ ''Encoded: '' @ fmt_f1 0 (fl (of_int encoded_size / 1024 ^ 2)) @ ''MB'' @ LF
              @ ''Reduction: ''
              @ fmt_f1 0
                  (fl (fl (of_int (original_size - encoded_size) / of_int original_size) * 100))
              @ ''%''))
   \<and> fmt_f1 0 x =
        (if x < 0 then ''-'' else []) @ show_nat (round_half_even (\<bar>x\<bar> * 10) div 10) @ ''.''
        @ [digit_chr (round_half_even (\<bar>x\<bar> * 10) mod 10)]
   \<and> list_all is_digit (show_nat (round_half_even (\<bar>x\<bar> * 10) div 10))
   \<and> is_digit (digit_chr (round_half_even (\<bar>x\<bar> * 10) mod 10))
   \<and> \<bar>of_int (round_half_even (\<bar>x\<bar> * 10)) / 10 - \<bar>x\<bar>\<bar> \<le> 1 / 20
   \<and> log_written (encode_video_exit 0 ''a encoded av1.mkv'' (1000 * 1024 ^ 2)
         (Some (400 * 1024 ^ 2)))
       = Some (''Original: 1000.0MB'' @ LF @ ''Encoded: 400.0MB'' @ LF @ ''Reduction: 60.0%'')"
proof (intro conjI impI)
  assume "return_code \<noteq> 0"
  then show a: "encode_video_exit return_code output_file original_size encoded = None"
    by (simp add: encode_video_exit_def)
  show "log_written (encode_video_exit return_code output_file original_size encoded) = None"
    unfolding a by (simp add: log_written_def)
next
  assume "0 < original_size \<and> output_file \<noteq> []"
  then show "log_written (encode_video_exit 0 output_file original_size (Some encoded_size)) =
        Some (''Original: '' @ fmt_f1 0 (fl (of_int original_size / 1024 ^ 2)) @ ''MB'' @ LF
              @ ''Encoded: '' @ fmt_f1 0 (fl (of_int encoded_size / 1024 ^ 2)) @ ''MB'' @ LF
              @ ''Reduction: ''
              @ fmt_f1 0
                  (fl (fl (of_int (original_size - encoded_size) / of_int original_size) * 100))
              @ ''%'')"
    by (simp add: encode_video_exit_def log_written_def calculate_size_reduction_def)
next
  show "fmt_f1 0 x =
        (if x < 0 then ''-'' else []) @ show_nat (round_half_even (\<bar>x\<bar> * 10) div 10) @ ''.''
        @ [digit_chr (round_half_even (\<bar>x\<bar> * 10) mod 10)]"
    by (rule fmt_f1_one_decimal)
  show "list_all is_digit (show_nat (round_half_even (\<bar>x\<bar> * 10) div 10))"
    by (rule fmt_f1_one_decimal)
  show "is_digit (digit_chr (round_half_even (\<bar>x\<bar> * 10) mod 10))"
    by (rule fmt_f1_one_decimal)
  show "\<bar>of_int (round_half_even (\<bar>x\<bar> * 10)) / 10 - \<bar>x\<bar>\<bar> \<le> 1 / 20"
    by (rule fmt_f1_one_decimal)
  show "log_written (encode_video_exit 0 ''a encoded av1.mkv'' (1000 * 1024 ^ 2)
         (Some (400 * 1024 ^ 2)))
       = Some (''Original: 1000.0MB'' @ LF @ ''Encoded: 400.0MB'' @ LF @ ''Reduction: 60.0%'')"
    by code_simp
qed

theorem exit_and_log_witness:
  "encode_video_exit 1 ''a encoded av1.mkv'' 83886080 (Some 30408704) = None
   \<and> log_written (encode_video_exit 1 ''a encoded av1.mkv'' 83886080 (Some 30408704)) = None
   \<and> log_written (encode_video_exit 0 ''a encoded av1.mkv'' 83886080 (Some 30408704))
       = Some (''Original: 80.0MB'' @ LF @ ''Encoded: 29.0MB'' @ LF @ ''Reduction: 63.7%'')"
proof -
  have h1: "(1::int) \<noteq> 0" by simp
  have h2: "(0::int) < 83886080 \<and> ''a encoded av1.mkv'' \<noteq> []" by simp
  have f: "fmt_f1 0 (fl (of_int 83886080 / 1024 ^ 2)) = ''80.0''"
    "fmt_f1 0 (fl (of_int 30408704 / 1024 ^ 2)) = ''29.0''"
    "fmt_f1 0 (fl (fl (of_int (83886080 - 30408704) / of_int 83886080) * 100)) = ''63.7''"
    by code_simp+
  from exit_and_log [where return_code = 1 and output_file = "''a encoded av1.mkv''"
      and original_size = 83886080 and encoded = "Some 30408704", THEN conjunct1, THEN mp, OF h1]
  have a: "encode_video_exit 1 ''a encoded av1.mkv'' 83886080 (Some 30408704) = None
   \<and> log_written (encode_video_exit 1 ''a encoded av1.mkv'' 83886080 (Some 30408704)) = None" .
  from exit_and_log [where output_file = "''a encoded av1.mkv''"
      and original_size = 83886080 and encoded_size = 30408704,
      THEN conjunct2, THEN conjunct1, THEN mp, OF h2]
  have b: "log_written (encode_video_exit 0 ''a encoded av1.mkv'' 83886080 (Some 30408704))
       = Some (''Original: 80.0MB'' @ LF @ ''Encoded: 29.0MB'' @ LF @ ''Reduction: 63.7%'')"
    unfolding f by simp
  from a b show ?thesis by blast
qed

end
